theory Spec2Isabelle
  imports Complex_Main
begin

section \<open>The tilt maze: grid model, session timer, collision resolver, integrator\<close>

text \<open>
  A shallow embedding of the play script of the maze game. The script exists in several
  variants. The one embedded in full is the variant with the session timer and the win
  modal. Its grid functions, \<^verbatim>\<open>syncBallRadius\<close> and \<^verbatim>\<open>resolveCircleCollisions\<close> are
  the same, statement for statement, in every variant that has them; the keyboard variant
  of the circle resolver differs in \<^verbatim>\<open>computeAcceleration\<close> and in what the goal
  branch does (it shows a message). The older axis-swept variant \<^verbatim>\<open>render_game.js\<close> has
  its own \<^verbatim>\<open>stepPhysics\<close>, embedded separately.

  JavaScript numbers are embedded as follows: coordinates, velocities, times and sizes are
  \<^typ>\<open>real\<close> (IEEE rounding, infinities and NaN are not modelled); tile indices, which
  the script only ever obtains from \<^verbatim>\<open>Math.floor\<close> or from loop counters, are
  \<^typ>\<open>int\<close>. A tile symbol is a \<^typ>\<open>char\<close>, a grid row a \<^typ>\<open>string\<close>.
  The module-level variables of the script are the fields of the record \<open>game\<close>
  (\<^verbatim>\<open>keyState\<close> exists in the keyboard variants only, \<^verbatim>\<open>timerState\<close> and
  \<^verbatim>\<open>animationPaused\<close> in the timer variants only).
\<close>

subsection \<open>Data\<close>

text \<open>A level object; only its \<^verbatim>\<open>grid\<close> property is read by the engine. \<open>None\<close> is
  a level object without a grid.\<close>

record level =
  grid :: "string list option"

text \<open>The object \<^verbatim>\<open>{ r, c }\<close> built by \<^verbatim>\<open>findSpecialCells\<close>.\<close>

record cell =
  cell_r :: int
  cell_c :: int

text \<open>The object \<^verbatim>\<open>{ cols, rows, cellSize }\<close> returned by the renderer.\<close>

record renderInfo =
  ri_cols :: int
  ri_rows :: int
  ri_cellSize :: real

record timerState =
  startTime :: real
  elapsedMs :: real
  running :: bool
  started :: bool

datatype js_error = TypeError

text \<open>Calls that leave the engine (frame scheduler, score store, DOM), kept as a trace.\<close>

datatype effect =
    CancelAnimationFrame
  | SaveCompletionTime real
  | WinModalShown
  | ShowMessage

record game =
  currentLevel :: "level option"
  renderInfo :: "renderInfo option"
  startCell :: "cell option"
  goalCell :: "cell option"
  goalReached :: bool
  animationId :: "nat option"
  animationPaused :: bool
  ball_pos_x :: real
  ball_pos_y :: real
  ball_vel_x :: real
  ball_vel_y :: real
  ball_radius :: real
  sensor_accel_x :: real
  sensor_accel_y :: real
  sensor_enabled :: bool
  sensor_available :: bool
  key_left :: bool
  key_right :: bool
  key_up :: bool
  key_down :: bool
  timer :: timerState
  effects :: "effect list"

subsection \<open>Helpers\<close>

text \<open>\<^verbatim>\<open>Math.min(max, Math.max(min, val))\<close>\<close>

definition clamp :: "real \<Rightarrow> real \<Rightarrow> real \<Rightarrow> real" where
  "clamp val mn mx = min mx (max mn val)"

text \<open>\<^verbatim>\<open>row.indexOf(ch)\<close>: the first index holding the symbol, or \<open>-1\<close>.\<close>

fun indexOf :: "'a list \<Rightarrow> 'a \<Rightarrow> int" where
  "indexOf [] ch = -1"
| "indexOf (y # ys) ch =
     (if y = ch then 0
      else (let i = indexOf ys ch in if i = -1 then -1 else i + 1))"

subsection \<open>Grid model\<close>

text \<open>
  The loop of \<^verbatim>\<open>findSpecialCells\<close>: \<open>rw\<close> is the row counter, the pair is
  \<^verbatim>\<open>(start, goal)\<close>, assigned anew by every row that holds the symbol.
\<close>

fun findSpecialCells_loop ::
  "string list \<Rightarrow> int \<Rightarrow> cell option \<times> cell option \<Rightarrow> cell option \<times> cell option" where
  "findSpecialCells_loop [] rw sg = sg"
| "findSpecialCells_loop (row # rest) rw (start, goal) =
     (let s = indexOf row (CHR ''S'');
          start' = (if s \<noteq> -1 then Some \<lparr>cell_r = rw, cell_c = s\<rparr> else start);
          g = indexOf row (CHR ''G'');
          goal' = (if g \<noteq> -1 then Some \<lparr>cell_r = rw, cell_c = g\<rparr> else goal)
      in findSpecialCells_loop rest (rw + 1) (start', goal'))"

definition findSpecialCells :: "string list \<Rightarrow> cell option \<times> cell option" where
  "findSpecialCells g = findSpecialCells_loop g 0 (None, None)"

text \<open>
  \<^verbatim>\<open>isWall(col, row)\<close>. A read \<^verbatim>\<open>grid[row][col]\<close> beyond the end of a row is
  \<^verbatim>\<open>undefined\<close> in JavaScript, which is not \<^verbatim>\<open>'#'\<close>.
\<close>

definition isWall :: "level option \<Rightarrow> int \<Rightarrow> int \<Rightarrow> bool" where
  "isWall lvl col row =
     (case lvl of
        None \<Rightarrow> False
      | Some l \<Rightarrow>
          (case grid l of
             None \<Rightarrow> False
           | Some g \<Rightarrow>
               if row < 0 \<or> col < 0 then True
               else if row \<ge> int (length g) then True
               else if col \<ge> int (length (g ! 0)) then True
               else (let rw = g ! nat row
                     in nat col < length rw \<and> rw ! nat col = CHR ''#'')))"

subsection \<open>Ball radius\<close>

text \<open>\<^verbatim>\<open>syncBallRadius(cellSize)\<close> assigns \<^verbatim>\<open>ball.radius\<close>.\<close>

definition syncBallRadius :: "real \<Rightarrow> game \<Rightarrow> game" where
  "syncBallRadius cellSize gm =
     gm\<lparr>ball_radius := max 3 (min (cellSize * 0.35) (cellSize * 0.45))\<rparr>"

subsection \<open>Session timer\<close>

text \<open>
  Every timer function that reads \<^verbatim>\<open>performance.now()\<close> takes the reading as its
  first argument \<open>now\<close>.
\<close>

definition resetTimer :: "timerState \<Rightarrow> timerState" where
  "resetTimer ts = ts\<lparr>startTime := 0, elapsedMs := 0, running := False, started := False\<rparr>"

definition startTimer :: "real \<Rightarrow> timerState \<Rightarrow> timerState" where
  "startTimer now ts =
     (if running ts then ts
      else ts\<lparr>startTime := now, running := True, started := True\<rparr>)"

definition stopTimer :: "real \<Rightarrow> timerState \<Rightarrow> timerState" where
  "stopTimer now ts =
     (if \<not> running ts then ts
      else ts\<lparr>elapsedMs := elapsedMs ts + (now - startTime ts), running := False\<rparr>)"

definition getElapsedMs :: "real \<Rightarrow> timerState \<Rightarrow> real" where
  "getElapsedMs now ts =
     (if \<not> running ts then elapsedMs ts
      else elapsedMs ts + (now - startTime ts))"

text \<open>The timer as the script creates it.\<close>

definition timerState0 :: timerState where
  "timerState0 = \<lparr>startTime = 0, elapsedMs = 0, running = False, started = False\<rparr>"

text \<open>The module state as the script initialises it.\<close>

definition game0 :: game where
  "game0 =
     \<lparr>currentLevel = None, renderInfo = None, startCell = None, goalCell = None,
      goalReached = False, animationId = None, animationPaused = False,
      ball_pos_x = 0, ball_pos_y = 0, ball_vel_x = 0, ball_vel_y = 0, ball_radius = 8,
      sensor_accel_x = 0, sensor_accel_y = 0, sensor_enabled = False, sensor_available = False,
      key_left = False, key_right = False, key_up = False, key_down = False,
      timer = timerState0, effects = []\<rparr>"

subsection \<open>Collision resolver\<close>

text \<open>
  The contact normal of one colliding tile: the direction from the closest point of the
  tile's box to the centre when they differ, and otherwise the outward direction of the
  box edge nearest to the embedded centre (first match of the \<^verbatim>\<open>if\<close> chain).
\<close>

definition contactNormal ::
  "real \<Rightarrow> real \<Rightarrow> real \<Rightarrow> real \<Rightarrow> real \<Rightarrow> real \<Rightarrow> real \<Rightarrow> real \<Rightarrow> real \<Rightarrow> real \<times> real" where
  "contactNormal cx cy x0 y0 x1 y1 dx dy dist' =
     (if dist' > 0 then (dx / dist', dy / dist')
      else
        (let leftPen = \<bar>cx - x0\<bar>;
             rightPen = \<bar>x1 - cx\<bar>;
             topPen = \<bar>cy - y0\<bar>;
             bottomPen = \<bar>y1 - cy\<bar>;
             minPen = min (min (min leftPen rightPen) topPen) bottomPen
         in if minPen = leftPen then (-1, 0)
            else if minPen = rightPen then (1, 0)
            else if minPen = topPen then (0, -1)
            else (0, 1)))"

text \<open>
  (The source's \<^verbatim>\<open>dist\<close> is written \<open>dist'\<close> here.)
  The test of one tile of the band: \<open>None\<close> when the tile is no wall or does not
  overlap the circle, else the normal and the penetration depth.
\<close>

definition tileContact ::
  "level option \<Rightarrow> real \<Rightarrow> real \<Rightarrow> int \<Rightarrow> int \<Rightarrow> real \<Rightarrow> real \<Rightarrow> (real \<times> real \<times> real) option" where
  "tileContact lvl radius cellSize row col cx cy =
     (if \<not> isWall lvl col row then None
      else
        (let x0 = real_of_int col * cellSize;
             y0 = real_of_int row * cellSize;
             x1 = x0 + cellSize;
             y1 = y0 + cellSize;
             closestX = clamp cx x0 x1;
             closestY = clamp cy y0 y1;
             dx = cx - closestX;
             dy = cy - closestY;
             distSq = dx * dx + dy * dy;
             radSq = radius * radius
         in if distSq < radSq - 1 / 1000000 then
              (let dist' = sqrt (max distSq 0);
                   (nx, ny) = contactNormal cx cy x0 y0 x1 y1 dx dy dist';
                   penetration = radius - dist' + 1 / 100
               in Some (nx, ny, penetration))
            else None))"

text \<open>The velocity response to a contact with normal \<open>(nx, ny)\<close>.\<close>

definition removeInward :: "real \<Rightarrow> real \<Rightarrow> real \<Rightarrow> real \<Rightarrow> real \<times> real" where
  "removeInward velx vely nx ny =
     (let vDotN = velx * nx + vely * ny
      in if vDotN < 0 then (velx - vDotN * nx, vely - vDotN * ny) else (velx, vely))"

text \<open>
  The body of the two nested \<^verbatim>\<open>for\<close> loops. The loop state is
  \<open>(cx, cy, ball.vel.x, ball.vel.y, collided)\<close>.
\<close>

type_synonym rstate = "real \<times> real \<times> real \<times> real \<times> bool"

definition resolveTile :: "level option \<Rightarrow> real \<Rightarrow> real \<Rightarrow> int \<Rightarrow> int \<Rightarrow> rstate \<Rightarrow> rstate" where
  "resolveTile lvl radius cellSize row col s =
     (case s of (cx, cy, velx, vely, collided) \<Rightarrow>
        (case tileContact lvl radius cellSize row col cx cy of
           None \<Rightarrow> s
         | Some (nx, ny, penetration) \<Rightarrow>
             (let (velx', vely') = removeInward velx vely nx ny
              in (cx + nx * penetration, cy + ny * penetration, velx', vely', True))))"

text \<open>
  One pass of the outer loop: the band is fixed from the centre at the start of the pass,
  then every tile of the band is visited row by row.
\<close>

definition resolvePass :: "level option \<Rightarrow> renderInfo \<Rightarrow> real \<Rightarrow> real \<Rightarrow> rstate \<Rightarrow> rstate" where
  "resolvePass lvl ri radius cellSize s =
     (case s of (cx, cy, velx, vely, collided) \<Rightarrow>
        (let minRow = max 0 \<lfloor>(cy - radius) / cellSize\<rfloor>;
             maxRow = min (ri_rows ri - 1) \<lfloor>(cy + radius) / cellSize\<rfloor>;
             minCol = max 0 \<lfloor>(cx - radius) / cellSize\<rfloor>;
             maxCol = min (ri_cols ri - 1) \<lfloor>(cx + radius) / cellSize\<rfloor>
         in fold (\<lambda>row. fold (\<lambda>col. resolveTile lvl radius cellSize row col) [minCol..maxCol])
              [minRow..maxRow] (cx, cy, velx, vely, False)))"

text \<open>The outer loop; the first argument is the number of passes left (\<open>maxIter - iter\<close>).\<close>

fun resolveIter ::
  "nat \<Rightarrow> level option \<Rightarrow> renderInfo \<Rightarrow> real \<Rightarrow> real \<Rightarrow> rstate \<Rightarrow> rstate" where
  "resolveIter 0 lvl ri radius cellSize s = s"
| "resolveIter (Suc n) lvl ri radius cellSize s =
     (let s' = resolvePass lvl ri radius cellSize s
      in if \<not> snd (snd (snd (snd s'))) then s' else resolveIter n lvl ri radius cellSize s')"

text \<open>
  \<^verbatim>\<open>resolveCircleCollisions(nextX, nextY, radius, cellSize)\<close>: the result is the returned
  position and the module state with the corrected velocity. Reading \<^verbatim>\<open>renderInfo.cols\<close>
  of a null \<^verbatim>\<open>renderInfo\<close> throws.
\<close>

definition resolveCircleCollisions ::
  "game \<Rightarrow> real \<Rightarrow> real \<Rightarrow> real \<Rightarrow> real \<Rightarrow> js_error + ((real \<times> real) \<times> game)" where
  "resolveCircleCollisions gm nextX nextY radius cellSize =
     (case renderInfo gm of
        None \<Rightarrow> Inl TypeError
      | Some ri \<Rightarrow>
          (let maxIter = 4;
               maxX = real_of_int (ri_cols ri) * cellSize - radius;
               maxY = real_of_int (ri_rows ri) * cellSize - radius;
               (cx, cy, velx, vely, collided) =
                  resolveIter maxIter (currentLevel gm) ri radius cellSize
                    (nextX, nextY, ball_vel_x gm, ball_vel_y gm, False)
           in Inr ((clamp cx radius maxX, clamp cy radius maxY),
                   gm\<lparr>ball_vel_x := velx, ball_vel_y := vely\<rparr>)))"

text \<open>
  The value of \<^verbatim>\<open>collided\<close> at the end of the first pass of a call made at
  \<open>(x, y)\<close> in state \<open>gm\<close>: whether some wall tile of the band overlaps the ball there.
\<close>

definition firstPassCollides :: "game \<Rightarrow> renderInfo \<Rightarrow> real \<Rightarrow> real \<Rightarrow> real \<Rightarrow> real \<Rightarrow> bool" where
  "firstPassCollides gm ri radius cellSize x y =
     snd (snd (snd (snd (resolvePass (currentLevel gm) ri radius cellSize
       (x, y, ball_vel_x gm, ball_vel_y gm, False)))))"

subsection \<open>Goal transition and its side effects\<close>

text \<open>
  \<^verbatim>\<open>pauseGame()\<close>. A frame handle is never zero, so the test
  \<^verbatim>\<open>if (animationId)\<close> is the test for a handle being present.
\<close>

definition pauseGame :: "real \<Rightarrow> game \<Rightarrow> game" where
  "pauseGame now gm =
     (let gm1 = gm\<lparr>animationPaused := True, timer := stopTimer now (timer gm),
                    ball_vel_x := 0, ball_vel_y := 0\<rparr>
      in if animationId gm1 \<noteq> None
         then gm1\<lparr>animationId := None, effects := effects gm1 @ [CancelAnimationFrame]\<rparr>
         else gm1)"

text \<open>
  \<^verbatim>\<open>showWinModal()\<close>: stops the timer, hands the elapsed time to the score store and
  shows the modal; the DOM work is the trace entry \<open>WinModalShown\<close>.
\<close>

definition showWinModal :: "real \<Rightarrow> game \<Rightarrow> game" where
  "showWinModal now gm =
     (let gm1 = gm\<lparr>timer := stopTimer now (timer gm)\<rparr>;
          ms = getElapsedMs now (timer gm1)
      in gm1\<lparr>effects := effects gm1 @ [SaveCompletionTime ms, WinModalShown]\<rparr>)"

text \<open>The goal test at the end of \<^verbatim>\<open>stepPhysics\<close>.\<close>

definition goalCheck :: "real \<Rightarrow> real \<Rightarrow> game \<Rightarrow> game" where
  "goalCheck now cellSize gm =
     (case goalCell gm of
        None \<Rightarrow> gm
      | Some gc \<Rightarrow>
          if \<not> goalReached gm then
            (let cellR = \<lfloor>ball_pos_y gm / cellSize\<rfloor>;
                 cellC = \<lfloor>ball_pos_x gm / cellSize\<rfloor>
             in if cellR = cell_r gc \<and> cellC = cell_c gc
                then showWinModal now (pauseGame now (gm\<lparr>goalReached := True\<rparr>))
                else gm)
          else gm)"

subsection \<open>Integrator\<close>

definition computeAcceleration :: "game \<Rightarrow> real \<times> real" where
  "computeAcceleration gm =
     (if sensor_enabled gm \<and> sensor_available gm
      then (sensor_accel_x gm, sensor_accel_y gm) else (0, 0))"

text \<open>
  The constant \<^verbatim>\<open>steps\<close> of \<^verbatim>\<open>stepPhysics\<close>, from the velocity after damping;
  \<^verbatim>\<open>Math.hypot\<close> is the Euclidean length.
\<close>

definition subStepCount :: "real \<Rightarrow> real \<Rightarrow> real \<Rightarrow> real \<Rightarrow> int" where
  "subStepCount velx vely dt cellSize =
     (let speed = sqrt (velx * velx + vely * vely);
          maxTravelPerSubStep = cellSize * 0.45
      in max 1 \<lceil>speed * dt / max 1 maxTravelPerSubStep\<rceil>)"

text \<open>The body of the sub-step loop.\<close>

definition subStep :: "real \<Rightarrow> real \<Rightarrow> real \<Rightarrow> game \<Rightarrow> js_error + game" where
  "subStep stepDt radius cellSize gm =
     (let nextX = ball_pos_x gm + ball_vel_x gm * stepDt;
          nextY = ball_pos_y gm + ball_vel_y gm * stepDt
      in case resolveCircleCollisions gm nextX nextY radius cellSize of
           Inl e \<Rightarrow> Inl e
         | Inr (resolved, gm') \<Rightarrow>
             Inr (gm'\<lparr>ball_pos_x := fst resolved, ball_pos_y := snd resolved\<rparr>))"

text \<open>The sub-step loop; the first argument is the number of sub-steps left.\<close>

fun subStepLoop :: "nat \<Rightarrow> real \<Rightarrow> real \<Rightarrow> real \<Rightarrow> game \<Rightarrow> js_error + game" where
  "subStepLoop 0 stepDt radius cellSize gm = Inr gm"
| "subStepLoop (Suc n) stepDt radius cellSize gm =
     (case subStep stepDt radius cellSize gm of
        Inl e \<Rightarrow> Inl e
      | Inr gm' \<Rightarrow> subStepLoop n stepDt radius cellSize gm')"

text \<open>The velocity update at the head of \<^verbatim>\<open>stepPhysics\<close>.\<close>

definition dampVelocity :: "real \<Rightarrow> real \<Rightarrow> real \<Rightarrow> game \<Rightarrow> game" where
  "dampVelocity ax ay dt gm =
     (let friction = 1.8
      in gm\<lparr>ball_vel_x := (ball_vel_x gm + ax * dt) * exp (- friction * dt),
             ball_vel_y := (ball_vel_y gm + ay * dt) * exp (- friction * dt)\<rparr>)"

text \<open>\<^verbatim>\<open>stepPhysics(dt)\<close>; \<open>now\<close> is the clock reading during the call.\<close>

definition stepPhysics :: "real \<Rightarrow> real \<Rightarrow> game \<Rightarrow> js_error + game" where
  "stepPhysics now dt gm =
     (case renderInfo gm of
        None \<Rightarrow> Inr gm
      | Some ri \<Rightarrow>
          (let (ax, ay) = computeAcceleration gm;
               gm1 = dampVelocity ax ay dt gm;
               cellSize = ri_cellSize ri;
               radius = ball_radius gm1;
               steps = subStepCount (ball_vel_x gm1) (ball_vel_y gm1) dt cellSize;
               stepDt = dt / real_of_int steps
           in case subStepLoop (nat steps) stepDt radius cellSize gm1 of
                Inl e \<Rightarrow> Inl e
              | Inr gm2 \<Rightarrow> Inr (goalCheck now cellSize gm2)))"

text \<open>
  The frame loop calls \<^verbatim>\<open>stepPhysics\<close> once per frame; \<open>stepFrames\<close> is a run of such
  calls, each with the clock reading and the time step of its frame.
\<close>

fun stepFrames :: "(real \<times> real) list \<Rightarrow> game \<Rightarrow> js_error + game" where
  "stepFrames [] gm = Inr gm"
| "stepFrames ((now, dt) # fs) gm =
     (case stepPhysics now dt gm of
        Inl e \<Rightarrow> Inl e
      | Inr gm' \<Rightarrow> stepFrames fs gm')"

subsection \<open>The axis-swept variant (\<^verbatim>\<open>render_game.js\<close>)\<close>

definition computeAcceleration_keys :: "game \<Rightarrow> real \<times> real" where
  "computeAcceleration_keys gm =
     (let (ax0, ay0) = (if sensor_enabled gm \<and> sensor_available gm
                        then (sensor_accel_x gm, sensor_accel_y gm) else (0, 0));
          keyAccel = 700;
          ax1 = (if key_left gm then ax0 - keyAccel else ax0);
          ax2 = (if key_right gm then ax1 + keyAccel else ax1);
          ay1 = (if key_up gm then ay0 - keyAccel else ay0);
          ay2 = (if key_down gm then ay1 + keyAccel else ay1)
      in (ax2, ay2))"

text \<open>Here \<^verbatim>\<open>speed\<close> is the larger of the two absolute velocity components.\<close>

definition subStepCount_swept :: "real \<Rightarrow> real \<Rightarrow> real \<Rightarrow> real \<Rightarrow> int" where
  "subStepCount_swept velx vely dt cellSize =
     (let speed = max \<bar>velx\<bar> \<bar>vely\<bar>;
          maxTravelPerSubStep = cellSize * 0.45
      in max 1 \<lceil>speed * dt / max 1 maxTravelPerSubStep\<rceil>)"

text \<open>
  One axis of a swept sub-step. \<open>lo\<close> and \<open>hi\<close> bound the band of tiles across the
  direction of travel, \<open>wallAt k j\<close> tests the tile at index \<open>k\<close> along the direction
  and \<open>j\<close> across it. Returns the next coordinate before clamping and the velocity.
\<close>

definition sweepAxis ::
  "(int \<Rightarrow> int \<Rightarrow> bool) \<Rightarrow> real \<Rightarrow> real \<Rightarrow> real \<Rightarrow> real \<Rightarrow> int \<Rightarrow> int \<Rightarrow> real \<times> real" where
  "sweepAxis wallAt next vel radius cellSize lo hi =
     (if vel > 0 then
        (let k = \<lfloor>(next + radius) / cellSize\<rfloor>
         in if list_ex (\<lambda>j. wallAt k j) [lo..hi]
            then (real_of_int k * cellSize - radius - 1 / 100, 0)
            else (next, vel))
      else if vel < 0 then
        (let k = \<lfloor>(next - radius) / cellSize\<rfloor>
         in if list_ex (\<lambda>j. wallAt k j) [lo..hi]
            then (real_of_int (k + 1) * cellSize + radius + 1 / 100, 0)
            else (next, vel))
      else (next, vel))"

definition subStep_swept :: "renderInfo \<Rightarrow> real \<Rightarrow> real \<Rightarrow> real \<Rightarrow> game \<Rightarrow> game" where
  "subStep_swept ri stepDt radius cellSize gm =
     (let lvl = currentLevel gm;
          nextX0 = ball_pos_x gm + ball_vel_x gm * stepDt;
          minRow = max 0 \<lfloor>(ball_pos_y gm - radius) / cellSize\<rfloor>;
          maxRow = min (ri_rows ri - 1) \<lfloor>(ball_pos_y gm + radius) / cellSize\<rfloor>;
          (nextX, velx) =
             sweepAxis (\<lambda>col rw. isWall lvl col rw) nextX0 (ball_vel_x gm) radius cellSize minRow maxRow;
          maxX = real_of_int (ri_cols ri) * cellSize - radius;
          posx = clamp nextX radius maxX;
          nextY0 = ball_pos_y gm + ball_vel_y gm * stepDt;
          minCol = max 0 \<lfloor>(posx - radius) / cellSize\<rfloor>;
          maxCol = min (ri_cols ri - 1) \<lfloor>(posx + radius) / cellSize\<rfloor>;
          (nextY, vely) =
             sweepAxis (\<lambda>rw col. isWall lvl col rw) nextY0 (ball_vel_y gm) radius cellSize minCol maxCol;
          maxY = real_of_int (ri_rows ri) * cellSize - radius;
          posy = clamp nextY radius maxY
      in gm\<lparr>ball_pos_x := posx, ball_pos_y := posy, ball_vel_x := velx, ball_vel_y := vely\<rparr>)"

definition goalCheck_swept :: "real \<Rightarrow> game \<Rightarrow> game" where
  "goalCheck_swept cellSize gm =
     (case goalCell gm of
        None \<Rightarrow> gm
      | Some gc \<Rightarrow>
          if \<not> goalReached gm then
            (let cellR = \<lfloor>ball_pos_y gm / cellSize\<rfloor>;
                 cellC = \<lfloor>ball_pos_x gm / cellSize\<rfloor>
             in if cellR = cell_r gc \<and> cellC = cell_c gc
                then gm\<lparr>goalReached := True, effects := effects gm @ [ShowMessage]\<rparr>
                else gm)
          else gm)"

definition stepPhysics_swept :: "real \<Rightarrow> game \<Rightarrow> game" where
  "stepPhysics_swept dt gm =
     (case renderInfo gm of
        None \<Rightarrow> gm
      | Some ri \<Rightarrow>
          (let (ax, ay) = computeAcceleration_keys gm;
               gm1 = dampVelocity ax ay dt gm;
               cellSize = ri_cellSize ri;
               radius = ball_radius gm1;
               steps = subStepCount_swept (ball_vel_x gm1) (ball_vel_y gm1) dt cellSize;
               stepDt = dt / real_of_int steps
           in goalCheck_swept cellSize
                (((subStep_swept ri stepDt radius cellSize) ^^ nat steps) gm1)))"

subsection \<open>Reference definitions, in the words of the specification\<close>

text \<open>
  The first occurrence of a symbol, scanning the rows top to bottom and each row left to
  right; \<open>None\<close> when the symbol is absent.
\<close>

fun spec_findFirst_from :: "string list \<Rightarrow> char \<Rightarrow> int \<Rightarrow> cell option" where
  "spec_findFirst_from [] ch rw = None"
| "spec_findFirst_from (row # rest) ch rw =
     (if ch \<in> set row then Some \<lparr>cell_r = rw, cell_c = indexOf row ch\<rparr>
      else spec_findFirst_from rest ch (rw + 1))"

definition spec_findFirst :: "string list \<Rightarrow> char \<Rightarrow> cell option" where
  "spec_findFirst g ch = spec_findFirst_from g ch 0"

text \<open>
  The sub-step count \<open>max(1, ceil(speed\<cdot>dt / maxStep))\<close> with \<open>speed\<close> the magnitude of
  the velocity and \<open>maxStep = 0.45\<cdot>cellSize\<close>.
\<close>

definition spec_subStepCount :: "real \<Rightarrow> real \<Rightarrow> real \<Rightarrow> real \<Rightarrow> int" where
  "spec_subStepCount velx vely dt cellSize =
     max 1 \<lceil>sqrt (velx * velx + vely * vely) * dt / (0.45 * cellSize)\<rceil>"

subsection \<open>A small level used in the examples\<close>

text \<open>One row, a floor tile followed by a wall tile, drawn with tiles of size 100.\<close>

definition demoLevel :: level where
  "demoLevel = \<lparr>grid = Some [''.#'']\<rparr>"

definition demoInfo :: renderInfo where
  "demoInfo = \<lparr>ri_cols = 2, ri_rows = 1, ri_cellSize = 100\<rparr>"

definition demoGame :: game where
  "demoGame = game0\<lparr>currentLevel := Some demoLevel, renderInfo := Some demoInfo, ball_radius := 3\<rparr>"

text \<open>The same level with the goal on the floor tile and the ball resting at its centre.\<close>

definition demoGoalGame :: game where
  "demoGoalGame =
     demoGame\<lparr>goalCell := Some \<lparr>cell_r = 0, cell_c = 0\<rparr>, ball_pos_x := 50, ball_pos_y := 50\<rparr>"

section \<open>Grid model: properties\<close>

text \<open>
  C10. When no level is loaded (\<^verbatim>\<open>currentLevel\<close> is null, or the level object has no
  grid), \<open>isWall\<close> is false at every coordinate, negative and out-of-range ones
  included.
\<close>

theorem isWall_no_level:
  "isWall None col row = False \<and> isWall (Some \<lparr>grid = None\<rparr>) col row = False"
  by (simp add: isWall_def)

theorem isWall_no_level_witness:
  "isWall None (-1) 7 = False \<and> isWall (Some \<lparr>grid = None\<rparr>) (-1) 7 = False"
  using isWall_no_level [of "-1" 7] by simp

text \<open>
  C4. For a loaded level with a rectangular grid, \<open>isWall\<close> is true at every
  out-of-bounds coordinate (negative column or row, row at or beyond the number of rows,
  column at or beyond the number of columns), and at an in-bounds coordinate it is true
  exactly when the tile symbol is \<open>#\<close>.
\<close>

theorem isWall_closed_world:
  assumes g: "grid l = Some g"
    and rect: "\<forall>rw \<in> set g. length rw = length (g ! 0)"
  shows "isWall (Some l) col row =
           (if col < 0 \<or> row < 0 \<or> row \<ge> int (length g) \<or> col \<ge> int (length (g ! 0)) then True
            else g ! nat row ! nat col = CHR ''#'')"
proof (cases "col < 0 \<or> row < 0 \<or> row \<ge> int (length g) \<or> col \<ge> int (length (g ! 0))")
  case True
  then show ?thesis using g by (auto simp: isWall_def)
next
  case False
  then have "nat row < length g" by linarith
  then have "g ! nat row \<in> set g" by simp
  with rect have "length (g ! nat row) = length (g ! 0)" by blast
  with False have "nat col < length (g ! nat row)" by linarith
  with False g show ?thesis by (simp add: isWall_def Let_def)
qed

theorem isWall_closed_world_witness:
  "grid demoLevel = Some [''.#''] \<and>
   isWall (Some demoLevel) 1 0 \<and> \<not> isWall (Some demoLevel) 0 0 \<and>
   isWall (Some demoLevel) 2 0 \<and> isWall (Some demoLevel) 0 1 \<and>
   isWall (Some demoLevel) (-1) 0 \<and> isWall (Some demoLevel) 0 (-1)"
proof -
  have g: "grid demoLevel = Some [''.#'']" by (simp add: demoLevel_def)
  have rect: "\<forall>rw \<in> set [''.#'']. length rw = length ([''.#''] ! 0)" by simp
  note w = isWall_closed_world [OF g rect]
  show ?thesis
    using g w [of 1 0] w [of 0 0] w [of 2 0] w [of 0 1] w [of "-1" 0] w [of 0 "-1"] by simp
qed

section \<open>Ball radius\<close>

text \<open>
  C6 (as amended). After \<open>syncBallRadius cellSize\<close> with a positive tile size the radius
  is \<open>max(3, 0.35 \<cdot> cellSize)\<close>, and nothing but the radius has changed. Hence it
  satisfies \<open>3 \<le> radius \<le> 0.45 \<cdot> cellSize\<close> for every tile size of at least \<open>20/3\<close>; for
  a smaller positive tile size the radius is the floor value 3, which exceeds
  \<open>0.45 \<cdot> cellSize\<close>.
\<close>

theorem syncBallRadius_bounds:
  "(0 < cellSize \<longrightarrow>
      ball_radius (syncBallRadius cellSize gm) = max 3 (0.35 * cellSize) \<and>
      syncBallRadius cellSize gm = gm\<lparr>ball_radius := max 3 (0.35 * cellSize)\<rparr>) \<and>
   (20 / 3 \<le> cellSize \<longrightarrow>
      3 \<le> ball_radius (syncBallRadius cellSize gm) \<and>
      ball_radius (syncBallRadius cellSize gm) \<le> 0.45 * cellSize) \<and>
   (0 < cellSize \<and> cellSize < 20 / 3 \<longrightarrow>
      ball_radius (syncBallRadius cellSize gm) = 3 \<and>
      0.45 * cellSize < ball_radius (syncBallRadius cellSize gm))"
proof (intro conjI impI)
  assume pos: "0 < cellSize"
  then have m: "min (cellSize * 0.35) (cellSize * 0.45) = 0.35 * cellSize"
    by (simp add: min_def)
  show "ball_radius (syncBallRadius cellSize gm) = max 3 (0.35 * cellSize)"
    unfolding syncBallRadius_def m by simp
  show "syncBallRadius cellSize gm = gm\<lparr>ball_radius := max 3 (0.35 * cellSize)\<rparr>"
    unfolding syncBallRadius_def m by simp
next
  assume "20 / 3 \<le> cellSize"
  then show "3 \<le> ball_radius (syncBallRadius cellSize gm)"
    "ball_radius (syncBallRadius cellSize gm) \<le> 0.45 * cellSize"
    by (auto simp: syncBallRadius_def min_def max_def)
next
  assume "0 < cellSize \<and> cellSize < 20 / 3"
  then show "ball_radius (syncBallRadius cellSize gm) = 3"
    "0.45 * cellSize < ball_radius (syncBallRadius cellSize gm)"
    by (auto simp: syncBallRadius_def min_def max_def)
qed

theorem syncBallRadius_bounds_witness:
  "((0::real) < 100 \<and>
      ball_radius (syncBallRadius 100 game0) = 35 \<and>
      syncBallRadius 100 game0 = game0\<lparr>ball_radius := 35\<rparr>) \<and>
   (20 / 3 \<le> (10::real) \<and>
      ball_radius (syncBallRadius 10 game0) = 7 / 2 \<and>
      3 \<le> ball_radius (syncBallRadius 10 game0) \<and>
      ball_radius (syncBallRadius 10 game0) \<le> 0.45 * 10) \<and>
   ((0::real) < 1 \<and> (1::real) < 20 / 3 \<and>
      ball_radius (syncBallRadius 1 game0) = 3 \<and>
      0.45 * 1 < ball_radius (syncBallRadius 1 game0))"
  using syncBallRadius_bounds [of 100 game0] syncBallRadius_bounds [of 10 game0]
    syncBallRadius_bounds [of 1 game0]
  by simp

text \<open>
  The claim as first stated, \<open>3 \<le> radius \<le> 0.45 \<cdot> cellSize\<close> for every positive tile
  size, fails at tile size 1, where the radius is 3.
\<close>

theorem syncBallRadius_counterexample:
  "\<not> (3 \<le> ball_radius (syncBallRadius 1 game0) \<and>
      ball_radius (syncBallRadius 1 game0) \<le> 0.45 * 1)"
  by (simp add: syncBallRadius_def)

section \<open>Session timer\<close>

text \<open>
  C9. \<open>startTimer\<close> leaves a running timer unchanged and otherwise records the clock
  reading as the running origin; \<open>stopTimer\<close> leaves a stopped timer unchanged and
  otherwise adds \<open>now - origin\<close> to the accumulated time. Hence, on the timer as created
  or as reset, start, a clock advance of \<open>T\<close>, stop, then \<open>getElapsedMs\<close> (at any later
  reading) yields \<open>T\<close>; on a stopped timer in general it yields the time accumulated
  before plus \<open>T\<close>. After \<open>resetTimer\<close> the elapsed time is 0.
\<close>

theorem timer_semantics:
  "(running ts \<longrightarrow> startTimer now ts = ts) \<and>
   (\<not> running ts \<longrightarrow>
      startTimer now ts = ts\<lparr>startTime := now, running := True, started := True\<rparr>) \<and>
   (\<not> running ts \<longrightarrow> stopTimer now ts = ts) \<and>
   (running ts \<longrightarrow>
      stopTimer now ts =
        ts\<lparr>elapsedMs := elapsedMs ts + (now - startTime ts), running := False\<rparr>) \<and>
   getElapsedMs now' (stopTimer (now + T) (startTimer now timerState0)) = T \<and>
   getElapsedMs now' (stopTimer (now + T) (startTimer now (resetTimer ts))) = T \<and>
   (\<not> running ts \<longrightarrow>
      getElapsedMs now' (stopTimer (now + T) (startTimer now ts)) = elapsedMs ts + T) \<and>
   getElapsedMs now (resetTimer ts) = 0"
  by (simp add: startTimer_def stopTimer_def getElapsedMs_def resetTimer_def timerState0_def)

theorem timer_semantics_witness:
  "running (startTimer 5 timerState0) \<and>
   startTimer 7 (startTimer 5 timerState0) = startTimer 5 timerState0 \<and>
   stopTimer 7 (startTimer 5 timerState0) =
     (startTimer 5 timerState0)\<lparr>elapsedMs := 0 + (7 - 5), running := False\<rparr> \<and>
   \<not> running timerState0 \<and>
   startTimer 7 timerState0 = timerState0\<lparr>startTime := 7, running := True, started := True\<rparr> \<and>
   stopTimer 7 timerState0 = timerState0 \<and>
   getElapsedMs 100 (stopTimer (7 + 3) (startTimer 7 timerState0)) = 3 \<and>
   getElapsedMs 100 (stopTimer (7 + 3) (startTimer 7 (resetTimer (startTimer 5 timerState0)))) = 3 \<and>
   getElapsedMs 7 (resetTimer (startTimer 5 timerState0)) = 0"
proof -
  have r: "running (startTimer 5 timerState0)"
    by (simp add: startTimer_def timerState0_def)
  have e: "elapsedMs (startTimer 5 timerState0) = 0" "startTime (startTimer 5 timerState0) = 5"
    by (simp_all add: startTimer_def timerState0_def)
  have n: "\<not> running timerState0" by (simp add: timerState0_def)
  show ?thesis
    using r e n timer_semantics [of "startTimer 5 timerState0" 7 100 3]
      timer_semantics [of timerState0 7 100 3]
    by simp
qed

section \<open>Collision resolver\<close>

lemma clamp_bounds: "mn \<le> mx \<Longrightarrow> mn \<le> clamp val mn mx \<and> clamp val mn mx \<le> mx"
  by (simp add: clamp_def)

lemma clamp_id: "mn \<le> val \<Longrightarrow> val \<le> mx \<Longrightarrow> clamp val mn mx = val"
  by (simp add: clamp_def)

text \<open>
  C1. With a render info present and \<open>radius \<le> cols \<cdot> cellSize - radius\<close>,
  \<open>radius \<le> rows \<cdot> cellSize - radius\<close>, every call of the resolver returns, and the
  returned position lies in \<open>[radius, cols \<cdot> cellSize - radius]\<close> on the x axis and in
  \<open>[radius, rows \<cdot> cellSize - radius]\<close> on the y axis, whatever the input position.
\<close>

theorem resolveCircleCollisions_in_bounds:
  assumes ri: "renderInfo gm = Some ri"
    and bndx: "radius \<le> real_of_int (ri_cols ri) * cellSize - radius"
    and bndy: "radius \<le> real_of_int (ri_rows ri) * cellSize - radius"
  shows "\<exists>x y gm'. resolveCircleCollisions gm nextX nextY radius cellSize = Inr ((x, y), gm') \<and>
           radius \<le> x \<and> x \<le> real_of_int (ri_cols ri) * cellSize - radius \<and>
           radius \<le> y \<and> y \<le> real_of_int (ri_rows ri) * cellSize - radius"
proof -
  obtain cx cy velx vely collided where
    it: "resolveIter 4 (currentLevel gm) ri radius cellSize
           (nextX, nextY, ball_vel_x gm, ball_vel_y gm, False) = (cx, cy, velx, vely, collided)"
    by (metis prod_cases5)
  have "resolveCircleCollisions gm nextX nextY radius cellSize =
          Inr ((clamp cx radius (real_of_int (ri_cols ri) * cellSize - radius),
                clamp cy radius (real_of_int (ri_rows ri) * cellSize - radius)),
               gm\<lparr>ball_vel_x := velx, ball_vel_y := vely\<rparr>)"
    unfolding resolveCircleCollisions_def using ri it by (simp add: Let_def)
  then show ?thesis
    using clamp_bounds [OF bndx, of cx] clamp_bounds [OF bndy, of cy] by blast
qed

theorem resolveCircleCollisions_in_bounds_witness:
  "\<exists>x y gm'. resolveCircleCollisions demoGame 150 50 3 100 = Inr ((x, y), gm') \<and>
      3 \<le> x \<and> x \<le> 197 \<and> 3 \<le> y \<and> y \<le> 97"
proof -
  have ri: "renderInfo demoGame = Some demoInfo" by (simp add: demoGame_def)
  have bndx: "(3::real) \<le> real_of_int (ri_cols demoInfo) * 100 - 3" by (simp add: demoInfo_def)
  have bndy: "(3::real) \<le> real_of_int (ri_rows demoInfo) * 100 - 3" by (simp add: demoInfo_def)
  show ?thesis
    using resolveCircleCollisions_in_bounds [OF ri bndx bndy, of 150 50]
    by (simp add: demoInfo_def)
qed

lemma axis_unit:
  "(if a then (-1, 0) else if b then (1, 0) else if c then (0, -1) else (0, 1)) = (nx, ny) \<Longrightarrow>
   nx * nx + ny * ny = (1::real)"
  by (cases a; cases b; cases c) auto

lemma contactNormal_unit:
  assumes "contactNormal cx cy x0 y0 x1 y1 dx dy (sqrt (max (dx * dx + dy * dy) 0)) = (nx, ny)"
  shows "nx * nx + ny * ny = 1"
proof (cases "sqrt (max (dx * dx + dy * dy) 0) > 0")
  case True
  define d where "d = sqrt (max (dx * dx + dy * dy) 0)"
  have nonneg: "0 \<le> dx * dx + dy * dy" by simp
  have mx: "max (dx * dx + dy * dy) 0 = dx * dx + dy * dy"
    using nonneg by (rule max_absorb1)
  have dd: "d * d = dx * dx + dy * dy"
    unfolding d_def mx using nonneg by (metis real_sqrt_mult_self abs_of_nonneg)
  have dpos: "d > 0" using True by (simp add: d_def)
  from assms True have n: "nx = dx / d" "ny = dy / d"
    by (simp_all add: contactNormal_def d_def)
  have "nx * nx + ny * ny = (dx * dx + dy * dy) / (d * d)"
    unfolding n by (simp add: add_divide_distrib)
  also have "\<dots> = (d * d) / (d * d)" by (simp only: dd)
  also have "\<dots> = 1" using dpos by simp
  finally show ?thesis .
next
  case False
  with assms show ?thesis
    unfolding contactNormal_def Let_def by (simp only: if_False axis_unit)
qed

lemma tileContact_unit:
  assumes "tileContact lvl radius cellSize row col cx cy = Some (nx, ny, pen)"
  shows "nx * nx + ny * ny = 1"
proof -
  define x0 where "x0 = real_of_int col * cellSize"
  define y0 where "y0 = real_of_int row * cellSize"
  define dx where "dx = cx - clamp cx x0 (x0 + cellSize)"
  define dy where "dy = cy - clamp cy y0 (y0 + cellSize)"
  from assms have
    "contactNormal cx cy x0 y0 (x0 + cellSize) (y0 + cellSize) dx dy
       (sqrt (max (dx * dx + dy * dy) 0)) = (nx, ny)"
    unfolding tileContact_def x0_def y0_def dx_def dy_def
    by (auto simp: Let_def split: if_splits prod.splits)
  then show ?thesis by (rule contactNormal_unit)
qed

text \<open>
  C3. When the resolver finds a contact with normal \<open>n = (nx, ny)\<close> at a tile: if
  \<open>v \<cdot> n < 0\<close> the velocity becomes \<open>v - (v \<cdot> n) n\<close>, whose component along \<open>n\<close> is
  zero and whose tangential component (along \<open>(-ny, nx)\<close>) is that of \<open>v\<close>; if
  \<open>v \<cdot> n \<ge> 0\<close> the velocity is left as it is.
\<close>

theorem sliding_response:
  assumes contact: "tileContact lvl radius cellSize row col cx cy = Some (nx, ny, pen)"
    and step: "resolveTile lvl radius cellSize row col (cx, cy, velx, vely, collided) =
                 (cx', cy', velx', vely', collided')"
  shows "(velx * nx + vely * ny < 0 \<longrightarrow>
            velx' = velx - (velx * nx + vely * ny) * nx \<and>
            vely' = vely - (velx * nx + vely * ny) * ny \<and>
            velx' * nx + vely' * ny = 0 \<and>
            velx' * (- ny) + vely' * nx = velx * (- ny) + vely * nx) \<and>
         (velx * nx + vely * ny \<ge> 0 \<longrightarrow> velx' = velx \<and> vely' = vely)"
proof -
  have unit: "nx * nx + ny * ny = 1" using contact by (rule tileContact_unit)
  from step contact have v: "(velx', vely') = removeInward velx vely nx ny"
    by (simp add: resolveTile_def Let_def split: prod.splits)
  define d where "d = velx * nx + vely * ny"
  have along: "(velx - d * nx) * nx + (vely - d * ny) * ny = d - d * (nx * nx + ny * ny)"
    unfolding d_def by (simp add: algebra_simps)
  have tang: "(velx - d * nx) * (- ny) + (vely - d * ny) * nx = velx * (- ny) + vely * nx"
    by (simp add: algebra_simps)
  show ?thesis
  proof (cases "d < 0")
    case True
    with v have "velx' = velx - d * nx" "vely' = vely - d * ny"
      by (simp_all add: removeInward_def Let_def d_def)
    with along tang unit True show ?thesis unfolding d_def by simp
  next
    case False
    with v have "velx' = velx" "vely' = vely"
      by (simp_all add: removeInward_def Let_def d_def)
    with False show ?thesis unfolding d_def by simp
  qed
qed

lemma demo_contact:
  "tileContact (Some demoLevel) 3 100 0 1 150 50 = Some (-1, 0, 301 / 100)"
  by (simp add: tileContact_def isWall_def demoLevel_def clamp_def contactNormal_def Let_def)

theorem sliding_response_witness:
  "tileContact (Some demoLevel) 3 100 0 1 150 50 = Some (-1, 0, 301 / 100) \<and>
   resolveTile (Some demoLevel) 3 100 0 1 (150, 50, 5, 7, False) = (14699 / 100, 50, 0, 7, True) \<and>
   (5::real) * (-1) + 7 * 0 < 0 \<and>
   (0::real) = 5 - (5 * (-1) + 7 * 0) * (-1) \<and>
   (7::real) = 7 - (5 * (-1) + 7 * 0) * 0 \<and>
   (0::real) * (-1) + 7 * 0 = 0 \<and>
   (0::real) * (- 0) + 7 * (-1) = 5 * (- 0) + 7 * (-1) \<and>
   resolveTile (Some demoLevel) 3 100 0 1 (150, 50, -5, 7, False) = (14699 / 100, 50, -5, 7, True) \<and>
   (-5::real) * (-1) + 7 * 0 \<ge> 0"
proof -
  have s1: "resolveTile (Some demoLevel) 3 100 0 1 (150, 50, 5, 7, False) =
              (14699 / 100, 50, 0, 7, True)"
    by (simp add: resolveTile_def demo_contact removeInward_def Let_def)
  have s2: "resolveTile (Some demoLevel) 3 100 0 1 (150, 50, -5, 7, False) =
              (14699 / 100, 50, -5, 7, True)"
    by (simp add: resolveTile_def demo_contact removeInward_def Let_def)
  show ?thesis
    using sliding_response [OF demo_contact s1] sliding_response [OF demo_contact s2]
      demo_contact s1 s2
    by simp
qed

section \<open>Start and goal cells\<close>

lemma indexOf_ge: "-1 \<le> indexOf xs ch"
  by (induction xs) (auto simp: Let_def)

lemma indexOf_absent: "indexOf xs ch = -1 \<longleftrightarrow> ch \<notin> set xs"
proof (induction xs)
  case Nil
  then show ?case by simp
next
  case (Cons y ys)
  have "-1 \<le> indexOf ys ch" by (rule indexOf_ge)
  then show ?case using Cons by (auto simp: Let_def)
qed

lemma indexOf_first:
  "ch \<in> set xs \<Longrightarrow>
     0 \<le> indexOf xs ch \<and> nat (indexOf xs ch) < length xs \<and> xs ! nat (indexOf xs ch) = ch \<and>
     (\<forall>j < nat (indexOf xs ch). xs ! j \<noteq> ch)"
proof (induction xs)
  case Nil
  then show ?case by simp
next
  case (Cons y ys)
  show ?case
  proof (cases "y = ch")
    case True
    then show ?thesis by simp
  next
    case False
    with Cons.prems have mem: "ch \<in> set ys" by simp
    from Cons.IH [OF mem] have ih: "0 \<le> indexOf ys ch" "nat (indexOf ys ch) < length ys"
      "ys ! nat (indexOf ys ch) = ch" "\<forall>j < nat (indexOf ys ch). ys ! j \<noteq> ch" by auto
    have eq: "indexOf (y # ys) ch = indexOf ys ch + 1"
      using False ih(1) by (simp add: Let_def)
    have n: "nat (indexOf ys ch + 1) = Suc (nat (indexOf ys ch))"
      using ih(1) by simp
    show ?thesis
      unfolding eq n using ih False by (auto simp: nth_Cons split: nat.splits)
  qed
qed

lemma loop_absent:
  "\<forall>row \<in> set rws. CHR ''S'' \<notin> set row \<Longrightarrow> fst (findSpecialCells_loop rws rw (st, gl)) = st"
  by (induction rws arbitrary: rw st gl) (auto simp: Let_def indexOf_absent)

lemma loop_absent_G:
  "\<forall>row \<in> set rws. CHR ''G'' \<notin> set row \<Longrightarrow> snd (findSpecialCells_loop rws rw (st, gl)) = gl"
  by (induction rws arbitrary: rw st gl) (auto simp: Let_def indexOf_absent)

lemma loop_last_S:
  "i < length rws \<Longrightarrow> CHR ''S'' \<in> set (rws ! i) \<Longrightarrow>
   (\<forall>k. i < k \<and> k < length rws \<longrightarrow> CHR ''S'' \<notin> set (rws ! k)) \<Longrightarrow>
   fst (findSpecialCells_loop rws rw (st, gl)) =
     Some \<lparr>cell_r = rw + int i, cell_c = indexOf (rws ! i) (CHR ''S'')\<rparr>"
proof (induction rws arbitrary: rw st gl i)
  case Nil
  then show ?case by simp
next
  case (Cons row rest)
  show ?case
  proof (cases i)
    case 0
    have "\<forall>r \<in> set rest. CHR ''S'' \<notin> set r"
    proof
      fix r assume "r \<in> set rest"
      then obtain k where "k < length rest" "rest ! k = r" by (auto simp: in_set_conv_nth)
      with Cons.prems(3) [rule_format, of "Suc k"] 0 show "CHR ''S'' \<notin> set r" by auto
    qed
    from loop_absent [OF this] Cons.prems(2) 0 show ?thesis
      by (simp add: Let_def indexOf_absent)
  next
    case (Suc j)
    have a: "j < length rest" using Cons.prems(1) Suc by simp
    have b: "CHR ''S'' \<in> set (rest ! j)" using Cons.prems(2) Suc by simp
    have c: "\<forall>k. j < k \<and> k < length rest \<longrightarrow> CHR ''S'' \<notin> set (rest ! k)"
      using Cons.prems(3) Suc by (metis Suc_less_eq length_Cons nth_Cons_Suc)
    show ?thesis using Cons.IH [OF a b c] Suc by (simp add: Let_def)
  qed
qed

lemma loop_last_G:
  "i < length rws \<Longrightarrow> CHR ''G'' \<in> set (rws ! i) \<Longrightarrow>
   (\<forall>k. i < k \<and> k < length rws \<longrightarrow> CHR ''G'' \<notin> set (rws ! k)) \<Longrightarrow>
   snd (findSpecialCells_loop rws rw (st, gl)) =
     Some \<lparr>cell_r = rw + int i, cell_c = indexOf (rws ! i) (CHR ''G'')\<rparr>"
proof (induction rws arbitrary: rw st gl i)
  case Nil
  then show ?case by simp
next
  case (Cons row rest)
  show ?case
  proof (cases i)
    case 0
    have "\<forall>r \<in> set rest. CHR ''G'' \<notin> set r"
    proof
      fix r assume "r \<in> set rest"
      then obtain k where "k < length rest" "rest ! k = r" by (auto simp: in_set_conv_nth)
      with Cons.prems(3) [rule_format, of "Suc k"] 0 show "CHR ''G'' \<notin> set r" by auto
    qed
    from loop_absent_G [OF this] Cons.prems(2) 0 show ?thesis
      by (simp add: Let_def indexOf_absent)
  next
    case (Suc j)
    have a: "j < length rest" using Cons.prems(1) Suc by simp
    have b: "CHR ''G'' \<in> set (rest ! j)" using Cons.prems(2) Suc by simp
    have c: "\<forall>k. j < k \<and> k < length rest \<longrightarrow> CHR ''G'' \<notin> set (rest ! k)"
      using Cons.prems(3) Suc by (metis Suc_less_eq length_Cons nth_Cons_Suc)
    show ?thesis using Cons.IH [OF a b c] Suc by (simp add: Let_def)
  qed
qed

lemma spec_first_absent:
  "\<forall>row \<in> set rws. ch \<notin> set row \<Longrightarrow> spec_findFirst_from rws ch rw = None"
  by (induction rws arbitrary: rw) auto

lemma spec_first_row:
  "i < length rws \<Longrightarrow> ch \<in> set (rws ! i) \<Longrightarrow> (\<forall>k < i. ch \<notin> set (rws ! k)) \<Longrightarrow>
   spec_findFirst_from rws ch rw = Some \<lparr>cell_r = rw + int i, cell_c = indexOf (rws ! i) ch\<rparr>"
proof (induction rws arbitrary: rw i)
  case Nil
  then show ?case by simp
next
  case (Cons row rest)
  show ?case
  proof (cases i)
    case 0
    with Cons.prems show ?thesis by simp
  next
    case (Suc j)
    have notin: "ch \<notin> set row" using Cons.prems(3) Suc by force
    have a: "j < length rest" using Cons.prems(1) Suc by simp
    have b: "ch \<in> set (rest ! j)" using Cons.prems(2) Suc by simp
    have c: "\<forall>k < j. ch \<notin> set (rest ! k)"
      using Cons.prems(3) Suc by (metis Suc_less_eq nth_Cons_Suc)
    show ?thesis using Cons.IH [OF a b c] Suc notin by simp
  qed
qed

lemma single_row_first:
  assumes "i < length g" "ch \<in> set (g ! i)"
    and "\<forall>k < length g. ch \<in> set (g ! k) \<longrightarrow> k = i"
  shows "spec_findFirst g ch = Some \<lparr>cell_r = int i, cell_c = indexOf (g ! i) ch\<rparr>"
proof -
  have "\<forall>k < i. ch \<notin> set (g ! k)"
  proof (intro allI impI)
    fix k assume "k < i"
    with assms(1) have "k < length g" "k \<noteq> i" by simp_all
    with assms(3) show "ch \<notin> set (g ! k)" by blast
  qed
  from spec_first_row [OF assms(1,2) this, of 0] show ?thesis
    by (simp add: spec_findFirst_def)
qed

text \<open>
  C5 (as amended). The start cell computed by \<open>findSpecialCells\<close> lies in the last row
  that holds an \<open>S\<close>, at the first \<open>S\<close> of that row from the left, and likewise the goal
  cell for \<open>G\<close>; a symbol held by no row gives \<open>None\<close>. When a single row holds the
  symbol, this is the first occurrence in scanning order.
\<close>

theorem findSpecialCells_last_row:
  "(i < length g \<and> CHR ''S'' \<in> set (g ! i) \<and>
    (\<forall>k. i < k \<and> k < length g \<longrightarrow> CHR ''S'' \<notin> set (g ! k)) \<longrightarrow>
      fst (findSpecialCells g) = Some \<lparr>cell_r = int i, cell_c = indexOf (g ! i) (CHR ''S'')\<rparr> \<and>
      0 \<le> indexOf (g ! i) (CHR ''S'') \<and>
      g ! i ! nat (indexOf (g ! i) (CHR ''S'')) = CHR ''S'' \<and>
      (\<forall>j < nat (indexOf (g ! i) (CHR ''S'')). g ! i ! j \<noteq> CHR ''S'')) \<and>
   (i' < length g \<and> CHR ''G'' \<in> set (g ! i') \<and>
    (\<forall>k. i' < k \<and> k < length g \<longrightarrow> CHR ''G'' \<notin> set (g ! k)) \<longrightarrow>
      snd (findSpecialCells g) = Some \<lparr>cell_r = int i', cell_c = indexOf (g ! i') (CHR ''G'')\<rparr> \<and>
      0 \<le> indexOf (g ! i') (CHR ''G'') \<and>
      g ! i' ! nat (indexOf (g ! i') (CHR ''G'')) = CHR ''G'' \<and>
      (\<forall>j < nat (indexOf (g ! i') (CHR ''G'')). g ! i' ! j \<noteq> CHR ''G'')) \<and>
   ((\<forall>row \<in> set g. CHR ''S'' \<notin> set row) \<longrightarrow> fst (findSpecialCells g) = None) \<and>
   ((\<forall>row \<in> set g. CHR ''G'' \<notin> set row) \<longrightarrow> snd (findSpecialCells g) = None) \<and>
   (i < length g \<and> CHR ''S'' \<in> set (g ! i) \<and>
    (\<forall>k < length g. CHR ''S'' \<in> set (g ! k) \<longrightarrow> k = i) \<longrightarrow>
      fst (findSpecialCells g) = spec_findFirst g (CHR ''S'')) \<and>
   (i' < length g \<and> CHR ''G'' \<in> set (g ! i') \<and>
    (\<forall>k < length g. CHR ''G'' \<in> set (g ! k) \<longrightarrow> k = i') \<longrightarrow>
      snd (findSpecialCells g) = spec_findFirst g (CHR ''G''))"
proof (intro conjI impI)
  assume h: "i < length g \<and> CHR ''S'' \<in> set (g ! i) \<and>
    (\<forall>k. i < k \<and> k < length g \<longrightarrow> CHR ''S'' \<notin> set (g ! k))"
  then show "fst (findSpecialCells g) = Some \<lparr>cell_r = int i, cell_c = indexOf (g ! i) (CHR ''S'')\<rparr>"
    using loop_last_S [of i g 0 None None] by (simp add: findSpecialCells_def)
  from h indexOf_first [of "CHR ''S''" "g ! i"]
  show "0 \<le> indexOf (g ! i) (CHR ''S'')"
    "g ! i ! nat (indexOf (g ! i) (CHR ''S'')) = CHR ''S''"
    "\<forall>j < nat (indexOf (g ! i) (CHR ''S'')). g ! i ! j \<noteq> CHR ''S''"
    by blast+
next
  assume h: "i' < length g \<and> CHR ''G'' \<in> set (g ! i') \<and>
    (\<forall>k. i' < k \<and> k < length g \<longrightarrow> CHR ''G'' \<notin> set (g ! k))"
  then show "snd (findSpecialCells g) = Some \<lparr>cell_r = int i', cell_c = indexOf (g ! i') (CHR ''G'')\<rparr>"
    using loop_last_G [of i' g 0 None None] by (simp add: findSpecialCells_def)
  from h indexOf_first [of "CHR ''G''" "g ! i'"]
  show "0 \<le> indexOf (g ! i') (CHR ''G'')"
    "g ! i' ! nat (indexOf (g ! i') (CHR ''G'')) = CHR ''G''"
    "\<forall>j < nat (indexOf (g ! i') (CHR ''G'')). g ! i' ! j \<noteq> CHR ''G''"
    by blast+
next
  assume "\<forall>row \<in> set g. CHR ''S'' \<notin> set row"
  then show "fst (findSpecialCells g) = None"
    using loop_absent [of g 0 None None] by (simp add: findSpecialCells_def)
next
  assume "\<forall>row \<in> set g. CHR ''G'' \<notin> set row"
  then show "snd (findSpecialCells g) = None"
    using loop_absent_G [of g 0 None None] by (simp add: findSpecialCells_def)
next
  assume h: "i < length g \<and> CHR ''S'' \<in> set (g ! i) \<and>
    (\<forall>k < length g. CHR ''S'' \<in> set (g ! k) \<longrightarrow> k = i)"
  then have last: "\<forall>k. i < k \<and> k < length g \<longrightarrow> CHR ''S'' \<notin> set (g ! k)" by auto
  from h last loop_last_S [of i g 0 None None] single_row_first [of i g "CHR ''S''"]
  show "fst (findSpecialCells g) = spec_findFirst g (CHR ''S'')"
    by (simp add: findSpecialCells_def)
next
  assume h: "i' < length g \<and> CHR ''G'' \<in> set (g ! i') \<and>
    (\<forall>k < length g. CHR ''G'' \<in> set (g ! k) \<longrightarrow> k = i')"
  then have last: "\<forall>k. i' < k \<and> k < length g \<longrightarrow> CHR ''G'' \<notin> set (g ! k)" by auto
  from h last loop_last_G [of i' g 0 None None] single_row_first [of i' g "CHR ''G''"]
  show "snd (findSpecialCells g) = spec_findFirst g (CHR ''G'')"
    by (simp add: findSpecialCells_def)
qed

text \<open>
  The claim as first stated, that the first occurrence in scanning order is returned, fails
  on a grid with an \<open>S\<close> in each of two rows: the later row wins.
\<close>

theorem findSpecialCells_counterexample:
  "fst (findSpecialCells [''S'', ''S'']) = Some \<lparr>cell_r = 1, cell_c = 0\<rparr> \<and>
   spec_findFirst [''S'', ''S''] (CHR ''S'') = Some \<lparr>cell_r = 0, cell_c = 0\<rparr> \<and>
   fst (findSpecialCells [''S'', ''S'']) \<noteq> spec_findFirst [''S'', ''S''] (CHR ''S'')"
  by (simp add: findSpecialCells_def spec_findFirst_def)

theorem findSpecialCells_last_row_witness:
  "fst (findSpecialCells [''S.G'', ''.S.'', ''G..'']) = Some \<lparr>cell_r = 1, cell_c = 1\<rparr> \<and>
   snd (findSpecialCells [''S.G'', ''.S.'', ''G..'']) = Some \<lparr>cell_r = 2, cell_c = 0\<rparr> \<and>
   fst (findSpecialCells [''.#'']) = None \<and> snd (findSpecialCells [''.#'']) = None \<and>
   fst (findSpecialCells [''.#'', ''SG'']) = spec_findFirst [''.#'', ''SG''] (CHR ''S'') \<and>
   snd (findSpecialCells [''.#'', ''SG'']) = spec_findFirst [''.#'', ''SG''] (CHR ''G'')"
proof -
  have less2: "\<And>k P. (\<forall>k<(2::nat). P k) = (P 0 \<and> P 1)"
    by (auto simp: less_Suc_eq numeral_2_eq_2)
  have a: "\<forall>k. 1 < k \<and> k < length [''S.G'', ''.S.'', ''G..''] \<longrightarrow>
             CHR ''S'' \<notin> set ([''S.G'', ''.S.'', ''G..''] ! k)"
    by (auto simp: nth_Cons split: nat.splits)
  have b: "\<forall>k. 2 < k \<and> k < length [''S.G'', ''.S.'', ''G..''] \<longrightarrow>
             CHR ''G'' \<notin> set ([''S.G'', ''.S.'', ''G..''] ! k)"
    by auto
  have c: "\<forall>k < length [''.#'', ''SG'']. CHR ''S'' \<in> set ([''.#'', ''SG''] ! k) \<longrightarrow> k = 1"
    by (auto simp: nth_Cons split: nat.splits)
  have d: "\<forall>k < length [''.#'', ''SG'']. CHR ''G'' \<in> set ([''.#'', ''SG''] ! k) \<longrightarrow> k = 1"
    by (auto simp: nth_Cons split: nat.splits)
  show ?thesis
    using findSpecialCells_last_row [of 1 "[''S.G'', ''.S.'', ''G..'']" 2]
      findSpecialCells_last_row [of 0 "[''.#'']" 0]
      findSpecialCells_last_row [of 1 "[''.#'', ''SG'']" 1] a b c d
    by (simp add: spec_findFirst_def)
qed

section \<open>Collision resolver: fixed points\<close>

lemma resolveTile_unchanged_or_collided:
  "resolveTile lvl radius cellSize row col s = s \<or>
   snd (snd (snd (snd (resolveTile lvl radius cellSize row col s))))"
  by (auto simp: resolveTile_def Let_def split: prod.splits option.splits)

lemma resolveTile_keeps_collided:
  "snd (snd (snd (snd s))) \<Longrightarrow> snd (snd (snd (snd (resolveTile lvl radius cellSize row col s))))"
  using resolveTile_unchanged_or_collided [of lvl radius cellSize row col s] by auto

lemma fold_cols_keeps_collided:
  "snd (snd (snd (snd s))) \<Longrightarrow>
   snd (snd (snd (snd (fold (\<lambda>col. resolveTile lvl radius cellSize row col) cs s))))"
  by (induction cs arbitrary: s) (simp_all add: resolveTile_keeps_collided)

lemma fold_cols_unchanged_or_collided:
  "fold (\<lambda>col. resolveTile lvl radius cellSize row col) cs s = s \<or>
   snd (snd (snd (snd (fold (\<lambda>col. resolveTile lvl radius cellSize row col) cs s))))"
proof (induction cs arbitrary: s)
  case Nil
  then show ?case by simp
next
  case (Cons c cs)
  from resolveTile_unchanged_or_collided [of lvl radius cellSize row c s]
  show ?case
  proof
    assume "resolveTile lvl radius cellSize row c s = s"
    with Cons.IH [of s] show ?thesis by simp
  next
    assume "snd (snd (snd (snd (resolveTile lvl radius cellSize row c s))))"
    then show ?thesis by (simp add: fold_cols_keeps_collided)
  qed
qed

lemma fold_rows_keeps_collided:
  "snd (snd (snd (snd s))) \<Longrightarrow>
   snd (snd (snd (snd (fold (\<lambda>row. fold (\<lambda>col. resolveTile lvl radius cellSize row col) cs) rs s))))"
  by (induction rs arbitrary: s) (simp_all add: fold_cols_keeps_collided)

lemma fold_rows_unchanged_or_collided:
  "fold (\<lambda>row. fold (\<lambda>col. resolveTile lvl radius cellSize row col) cs) rs s = s \<or>
   snd (snd (snd (snd (fold (\<lambda>row. fold (\<lambda>col. resolveTile lvl radius cellSize row col) cs) rs s))))"
proof (induction rs arbitrary: s)
  case Nil
  then show ?case by simp
next
  case (Cons r rs)
  from fold_cols_unchanged_or_collided [of lvl radius cellSize r cs s]
  show ?case
  proof
    assume "fold (\<lambda>col. resolveTile lvl radius cellSize r col) cs s = s"
    with Cons.IH [of s] show ?thesis by simp
  next
    assume "snd (snd (snd (snd (fold (\<lambda>col. resolveTile lvl radius cellSize r col) cs s))))"
    then show ?thesis by (simp add: fold_rows_keeps_collided)
  qed
qed

lemma resolvePass_unchanged:
  assumes "\<not> snd (snd (snd (snd (resolvePass lvl ri radius cellSize (cx, cy, velx, vely, b)))))"
  shows "resolvePass lvl ri radius cellSize (cx, cy, velx, vely, b) = (cx, cy, velx, vely, False)"
  using assms fold_rows_unchanged_or_collided [of lvl radius cellSize _ _ "(cx, cy, velx, vely, False)"]
  unfolding resolvePass_def Let_def by (simp only: prod.case) metis

lemma stable_fixed_point:
  assumes ri: "renderInfo gm = Some ri"
    and stable: "\<not> firstPassCollides gm ri radius cellSize x y"
    and bx: "radius \<le> x" "x \<le> real_of_int (ri_cols ri) * cellSize - radius"
    and bndy: "radius \<le> y" "y \<le> real_of_int (ri_rows ri) * cellSize - radius"
  shows "resolveCircleCollisions gm x y radius cellSize = Inr ((x, y), gm)"
proof -
  have p: "resolvePass (currentLevel gm) ri radius cellSize (x, y, ball_vel_x gm, ball_vel_y gm, False)
             = (x, y, ball_vel_x gm, ball_vel_y gm, False)"
    using stable unfolding firstPassCollides_def by (rule resolvePass_unchanged)
  have it: "resolveIter 4 (currentLevel gm) ri radius cellSize
              (x, y, ball_vel_x gm, ball_vel_y gm, False) = (x, y, ball_vel_x gm, ball_vel_y gm, False)"
    by (simp add: eval_nat_numeral p Let_def)
  show ?thesis
    unfolding resolveCircleCollisions_def
    using ri it clamp_id [OF bx] clamp_id [OF bndy] by (simp add: Let_def)
qed

text \<open>
  C2 (as amended). If the position returned by the resolver is one at which a resolver
  pass finds no collision (the call did not end on its budget of four passes, and the final
  clamp did not move the ball into a wall), then calling the resolver again at that position,
  with the state the first call left, returns the same position and leaves the state,
  velocity included, as it is. (Bounds as in C1.)
\<close>

theorem stable_output_fixed_point:
  assumes out: "resolveCircleCollisions gm nextX nextY radius cellSize = Inr ((x, y), gm')"
    and ri: "renderInfo gm = Some ri"
    and bndx: "radius \<le> real_of_int (ri_cols ri) * cellSize - radius"
    and bndy: "radius \<le> real_of_int (ri_rows ri) * cellSize - radius"
    and stable: "\<not> firstPassCollides gm' ri radius cellSize x y"
  shows "resolveCircleCollisions gm' x y radius cellSize = Inr ((x, y), gm')"
proof -
  obtain cx cy velx vely collided where
    it: "resolveIter 4 (currentLevel gm) ri radius cellSize
           (nextX, nextY, ball_vel_x gm, ball_vel_y gm, False) = (cx, cy, velx, vely, collided)"
    by (metis prod_cases5)
  from out ri it have
    x: "x = clamp cx radius (real_of_int (ri_cols ri) * cellSize - radius)" and
    y: "y = clamp cy radius (real_of_int (ri_rows ri) * cellSize - radius)" and
    gm': "gm' = gm\<lparr>ball_vel_x := velx, ball_vel_y := vely\<rparr>"
    unfolding resolveCircleCollisions_def by (simp_all add: Let_def)
  have ri': "renderInfo gm' = Some ri" using ri gm' by simp
  from x clamp_bounds [OF bndx, of cx]
  have bx: "radius \<le> x" "x \<le> real_of_int (ri_cols ri) * cellSize - radius" by simp_all
  from y clamp_bounds [OF bndy, of cy]
  have bly: "radius \<le> y" "y \<le> real_of_int (ri_rows ri) * cellSize - radius" by simp_all
  from ri' stable bx bly show ?thesis by (rule stable_fixed_point)
qed

theorem stable_output_fixed_point_witness:
  "resolveCircleCollisions demoGame 98 50 3 100 = Inr ((9699 / 100, 50), demoGame) \<and>
   \<not> firstPassCollides demoGame demoInfo 3 100 (9699 / 100) 50 \<and>
   resolveCircleCollisions demoGame (9699 / 100) 50 3 100 = Inr ((9699 / 100, 50), demoGame)"
proof -
  have out: "resolveCircleCollisions demoGame 98 50 3 100 = Inr ((9699 / 100, 50), demoGame)"
    by (simp add: resolveCircleCollisions_def demoGame_def game0_def eval_nat_numeral
      resolvePass_def resolveTile_def tileContact_def isWall_def demoLevel_def demoInfo_def
      clamp_def contactNormal_def removeInward_def Let_def upto.simps)
  have ri: "renderInfo demoGame = Some demoInfo" by (simp add: demoGame_def)
  have bndx: "(3::real) \<le> real_of_int (ri_cols demoInfo) * 100 - 3" by (simp add: demoInfo_def)
  have bndy: "(3::real) \<le> real_of_int (ri_rows demoInfo) * 100 - 3" by (simp add: demoInfo_def)
  have stable: "\<not> firstPassCollides demoGame demoInfo 3 100 (9699 / 100) 50"
    by (simp add: firstPassCollides_def demoGame_def game0_def
      resolvePass_def resolveTile_def tileContact_def isWall_def demoLevel_def demoInfo_def
      clamp_def contactNormal_def removeInward_def Let_def upto.simps)
  from stable_output_fixed_point [OF out ri bndx bndy stable] out stable
  show ?thesis by simp
qed

text \<open>
  The claim as first stated, for every returned position, fails where the four passes do
  not suffice: a ball of radius 3 whose centre is embedded 50 deep in a wall tile of size
  100 is moved by 3.01 in each pass, is returned still embedded, and is moved again by the
  next call.
\<close>

theorem idempotence_counterexample:
  "resolveCircleCollisions demoGame 150 50 3 100 = Inr ((3449 / 25, 50), demoGame) \<and>
   resolveCircleCollisions demoGame (3449 / 25) 50 3 100 = Inr ((3148 / 25, 50), demoGame) \<and>
   (3449 / 25, 50) \<noteq> (3148 / 25 :: real, 50 :: real)"
  by (simp add: resolveCircleCollisions_def demoGame_def game0_def eval_nat_numeral
      resolvePass_def resolveTile_def tileContact_def isWall_def demoLevel_def demoInfo_def clamp_def contactNormal_def removeInward_def Let_def upto.simps)

section \<open>Integrator and goal transition\<close>

lemma resolve_state:
  assumes "renderInfo gm = Some ri"
  shows "\<exists>x y vx vy. resolveCircleCollisions gm nextX nextY radius cellSize =
           Inr ((x, y), gm\<lparr>ball_vel_x := vx, ball_vel_y := vy\<rparr>)"
proof -
  obtain cx cy velx vely collided where
    "resolveIter 4 (currentLevel gm) ri radius cellSize
       (nextX, nextY, ball_vel_x gm, ball_vel_y gm, False) = (cx, cy, velx, vely, collided)"
    by (metis prod_cases5)
  with assms have "resolveCircleCollisions gm nextX nextY radius cellSize =
      Inr ((clamp cx radius (real_of_int (ri_cols ri) * cellSize - radius),
            clamp cy radius (real_of_int (ri_rows ri) * cellSize - radius)),
           gm\<lparr>ball_vel_x := velx, ball_vel_y := vely\<rparr>)"
    unfolding resolveCircleCollisions_def by (simp add: Let_def)
  then show ?thesis by blast
qed

lemma subStep_state:
  assumes "renderInfo gm = Some ri"
  shows "\<exists>px py vx vy. subStep stepDt radius cellSize gm =
           Inr (gm\<lparr>ball_pos_x := px, ball_pos_y := py, ball_vel_x := vx, ball_vel_y := vy\<rparr>)"
proof -
  from resolve_state [OF assms] obtain x y vx vy where
    "resolveCircleCollisions gm (ball_pos_x gm + ball_vel_x gm * stepDt)
       (ball_pos_y gm + ball_vel_y gm * stepDt) radius cellSize =
     Inr ((x, y), gm\<lparr>ball_vel_x := vx, ball_vel_y := vy\<rparr>)"
    by blast
  then have "subStep stepDt radius cellSize gm =
      Inr (gm\<lparr>ball_pos_x := x, ball_pos_y := y, ball_vel_x := vx, ball_vel_y := vy\<rparr>)"
    by (simp add: subStep_def Let_def)
  then show ?thesis by blast
qed

lemma subStepLoop_state:
  assumes "renderInfo gm = Some ri"
  shows "\<exists>px py vx vy. subStepLoop n stepDt radius cellSize gm =
           Inr (gm\<lparr>ball_pos_x := px, ball_pos_y := py, ball_vel_x := vx, ball_vel_y := vy\<rparr>)"
  using assms
proof (induction n arbitrary: gm)
  case 0
  have "gm = gm\<lparr>ball_pos_x := ball_pos_x gm, ball_pos_y := ball_pos_y gm,
                ball_vel_x := ball_vel_x gm, ball_vel_y := ball_vel_y gm\<rparr>" by simp
  then show ?case by (metis subStepLoop.simps(1))
next
  case (Suc n)
  from subStep_state [OF Suc.prems] obtain px py vx vy where
    s: "subStep stepDt radius cellSize gm =
          Inr (gm\<lparr>ball_pos_x := px, ball_pos_y := py, ball_vel_x := vx, ball_vel_y := vy\<rparr>)"
    by blast
  let ?g = "gm\<lparr>ball_pos_x := px, ball_pos_y := py, ball_vel_x := vx, ball_vel_y := vy\<rparr>"
  have "renderInfo ?g = Some ri" using Suc.prems by simp
  from Suc.IH [OF this] obtain px' py' vx' vy' where
    "subStepLoop n stepDt radius cellSize ?g =
       Inr (?g\<lparr>ball_pos_x := px', ball_pos_y := py', ball_vel_x := vx', ball_vel_y := vy'\<rparr>)"
    by blast
  with s have "subStepLoop (Suc n) stepDt radius cellSize gm =
       Inr (gm\<lparr>ball_pos_x := px', ball_pos_y := py', ball_vel_x := vx', ball_vel_y := vy'\<rparr>)"
    by simp
  then show ?case by blast
qed

lemma stepPhysics_shape:
  assumes "renderInfo gm = Some ri"
  shows "\<exists>px py vx vy. stepPhysics now dt gm =
           Inr (goalCheck now (ri_cellSize ri)
                  (gm\<lparr>ball_pos_x := px, ball_pos_y := py, ball_vel_x := vx, ball_vel_y := vy\<rparr>))"
proof -
  obtain ax ay where a: "computeAcceleration gm = (ax, ay)" by (cases "computeAcceleration gm")
  let ?g1 = "dampVelocity ax ay dt gm"
  have g1: "?g1 = gm\<lparr>ball_vel_x := ball_vel_x ?g1, ball_vel_y := ball_vel_y ?g1\<rparr>"
    by (simp add: dampVelocity_def Let_def)
  have r1: "renderInfo ?g1 = Some ri" using assms by (simp add: dampVelocity_def Let_def)
  from subStepLoop_state [OF r1] obtain px py vx vy where
    "subStepLoop (nat (subStepCount (ball_vel_x ?g1) (ball_vel_y ?g1) dt (ri_cellSize ri)))
       (dt / real_of_int (subStepCount (ball_vel_x ?g1) (ball_vel_y ?g1) dt (ri_cellSize ri)))
       (ball_radius ?g1) (ri_cellSize ri) ?g1 =
     Inr (?g1\<lparr>ball_pos_x := px, ball_pos_y := py, ball_vel_x := vx, ball_vel_y := vy\<rparr>)"
    by blast
  moreover have "?g1\<lparr>ball_pos_x := px, ball_pos_y := py, ball_vel_x := vx, ball_vel_y := vy\<rparr>
      = gm\<lparr>ball_pos_x := px, ball_pos_y := py, ball_vel_x := vx, ball_vel_y := vy\<rparr>"
    by (simp add: dampVelocity_def Let_def)
  ultimately have "stepPhysics now dt gm =
      Inr (goalCheck now (ri_cellSize ri)
             (gm\<lparr>ball_pos_x := px, ball_pos_y := py, ball_vel_x := vx, ball_vel_y := vy\<rparr>))"
    unfolding stepPhysics_def using assms a by (simp add: Let_def)
  then show ?thesis by blast
qed

lemma goalCheck_reached:
  assumes "goalReached g"
  shows "goalCheck now cellSize g = g"
  using assms by (simp add: goalCheck_def split: option.splits)

lemma goalCheck_fires:
  assumes "\<not> goalReached g"
  shows "goalReached (goalCheck now cellSize g) \<longleftrightarrow>
           (\<exists>gc. goalCell g = Some gc \<and> \<lfloor>ball_pos_y g / cellSize\<rfloor> = cell_r gc \<and>
                 \<lfloor>ball_pos_x g / cellSize\<rfloor> = cell_c gc)"
  using assms
  by (auto simp: goalCheck_def pauseGame_def showWinModal_def Let_def split: option.splits)

lemma goalCheck_keeps:
  "ball_pos_x (goalCheck now cellSize g) = ball_pos_x g \<and>
   ball_pos_y (goalCheck now cellSize g) = ball_pos_y g \<and>
   goalCell (goalCheck now cellSize g) = goalCell g \<and>
   renderInfo (goalCheck now cellSize g) = renderInfo g"
  by (simp add: goalCheck_def pauseGame_def showWinModal_def Let_def split: option.splits)

lemma goalCheck_quiet:
  assumes "\<not> goalReached (goalCheck now cellSize g)"
  shows "goalCheck now cellSize g = g"
  using assms
  by (auto simp: goalCheck_def pauseGame_def showWinModal_def Let_def split: option.splits if_splits)

lemma goalCheck_effects:
  assumes "\<not> goalReached g" "goalReached (goalCheck now cellSize g)"
  shows "effects (goalCheck now cellSize g) =
           effects g @ (if animationId g \<noteq> None then [CancelAnimationFrame] else []) @
             [SaveCompletionTime (getElapsedMs now (stopTimer now (timer g))), WinModalShown] \<and>
         animationPaused (goalCheck now cellSize g) \<and>
         \<not> running (timer (goalCheck now cellSize g)) \<and>
         ball_vel_x (goalCheck now cellSize g) = 0 \<and> ball_vel_y (goalCheck now cellSize g) = 0"
  using assms
  by (auto simp: goalCheck_def pauseGame_def showWinModal_def stopTimer_def Let_def
      split: option.splits if_splits)

lemma subStep_swept_state:
  "\<exists>px py vx vy. subStep_swept ri stepDt radius cellSize gm =
     gm\<lparr>ball_pos_x := px, ball_pos_y := py, ball_vel_x := vx, ball_vel_y := vy\<rparr>"
  unfolding subStep_swept_def Let_def by (simp split: prod.splits) blast

lemma funpow_swept_state:
  "\<exists>px py vx vy. ((subStep_swept ri stepDt radius cellSize) ^^ n) gm =
     gm\<lparr>ball_pos_x := px, ball_pos_y := py, ball_vel_x := vx, ball_vel_y := vy\<rparr>"
proof (induction n)
  case 0
  have "gm = gm\<lparr>ball_pos_x := ball_pos_x gm, ball_pos_y := ball_pos_y gm,
                ball_vel_x := ball_vel_x gm, ball_vel_y := ball_vel_y gm\<rparr>" by simp
  then show ?case by (metis funpow_0)
next
  case (Suc n)
  then obtain px py vx vy where
    ih: "((subStep_swept ri stepDt radius cellSize) ^^ n) gm =
          gm\<lparr>ball_pos_x := px, ball_pos_y := py, ball_vel_x := vx, ball_vel_y := vy\<rparr>"
    by blast
  let ?g = "gm\<lparr>ball_pos_x := px, ball_pos_y := py, ball_vel_x := vx, ball_vel_y := vy\<rparr>"
  from subStep_swept_state [of ri stepDt radius cellSize ?g] obtain px' py' vx' vy' where
    "subStep_swept ri stepDt radius cellSize ?g =
       ?g\<lparr>ball_pos_x := px', ball_pos_y := py', ball_vel_x := vx', ball_vel_y := vy'\<rparr>"
    by blast
  with ih have "((subStep_swept ri stepDt radius cellSize) ^^ Suc n) gm =
       gm\<lparr>ball_pos_x := px', ball_pos_y := py', ball_vel_x := vx', ball_vel_y := vy'\<rparr>"
    by simp
  then show ?case by blast
qed

lemma stepPhysics_swept_shape:
  assumes "renderInfo gm = Some ri"
  shows "\<exists>px py vx vy. stepPhysics_swept dt gm =
           goalCheck_swept (ri_cellSize ri)
             (gm\<lparr>ball_pos_x := px, ball_pos_y := py, ball_vel_x := vx, ball_vel_y := vy\<rparr>)"
proof -
  obtain ax ay where a: "computeAcceleration_keys gm = (ax, ay)"
    by (cases "computeAcceleration_keys gm")
  let ?g1 = "dampVelocity ax ay dt gm"
  let ?n = "subStepCount_swept (ball_vel_x ?g1) (ball_vel_y ?g1) dt (ri_cellSize ri)"
  from funpow_swept_state [of "nat ?n" ri "dt / real_of_int ?n" "ball_radius ?g1" "ri_cellSize ri" ?g1]
  obtain px py vx vy where
    "((subStep_swept ri (dt / real_of_int ?n) (ball_radius ?g1) (ri_cellSize ri)) ^^ nat ?n) ?g1 =
       ?g1\<lparr>ball_pos_x := px, ball_pos_y := py, ball_vel_x := vx, ball_vel_y := vy\<rparr>"
    by blast
  moreover have "?g1\<lparr>ball_pos_x := px, ball_pos_y := py, ball_vel_x := vx, ball_vel_y := vy\<rparr>
      = gm\<lparr>ball_pos_x := px, ball_pos_y := py, ball_vel_x := vx, ball_vel_y := vy\<rparr>"
    by (simp add: dampVelocity_def Let_def)
  ultimately have "stepPhysics_swept dt gm =
      goalCheck_swept (ri_cellSize ri)
        (gm\<lparr>ball_pos_x := px, ball_pos_y := py, ball_vel_x := vx, ball_vel_y := vy\<rparr>)"
    unfolding stepPhysics_swept_def using assms a by (simp add: Let_def)
  then show ?thesis by blast
qed

lemma goalCheck_swept_reached:
  "goalReached g \<Longrightarrow> goalCheck_swept cellSize g = g"
  by (simp add: goalCheck_swept_def split: option.splits)

lemma goalCheck_swept_fires:
  assumes "\<not> goalReached g"
  shows "goalReached (goalCheck_swept cellSize g) \<longleftrightarrow>
           (\<exists>gc. goalCell g = Some gc \<and> \<lfloor>ball_pos_y g / cellSize\<rfloor> = cell_r gc \<and>
                 \<lfloor>ball_pos_x g / cellSize\<rfloor> = cell_c gc)"
  using assms by (auto simp: goalCheck_swept_def Let_def split: option.splits)

lemma goalCheck_swept_keeps:
  "ball_pos_x (goalCheck_swept cellSize g) = ball_pos_x g \<and>
   ball_pos_y (goalCheck_swept cellSize g) = ball_pos_y g"
  by (simp add: goalCheck_swept_def Let_def split: option.splits)

lemma goalCheck_swept_effects:
  "effects (goalCheck_swept cellSize g) =
     (if \<not> goalReached g \<and> goalReached (goalCheck_swept cellSize g)
      then effects g @ [ShowMessage] else effects g)"
  by (auto simp: goalCheck_swept_def Let_def split: option.splits)

lemma stepPhysics_goal:
  "\<exists>gm'. stepPhysics now dt gm = Inr gm' \<and>
     (goalReached gm \<longrightarrow>
        goalReached gm' \<and> effects gm' = effects gm \<and> timer gm' = timer gm \<and>
        animationPaused gm' = animationPaused gm \<and> animationId gm' = animationId gm) \<and>
     (\<not> goalReached gm \<longrightarrow>
        (goalReached gm' \<longleftrightarrow>
           (\<exists>ri gc. renderInfo gm = Some ri \<and> goalCell gm = Some gc \<and>
              \<lfloor>ball_pos_y gm' / ri_cellSize ri\<rfloor> = cell_r gc \<and>
              \<lfloor>ball_pos_x gm' / ri_cellSize ri\<rfloor> = cell_c gc))) \<and>
     (\<not> goalReached gm \<and> goalReached gm' \<longrightarrow>
        effects gm' =
          effects gm @ (if animationId gm \<noteq> None then [CancelAnimationFrame] else []) @
            [SaveCompletionTime (getElapsedMs now (stopTimer now (timer gm))), WinModalShown] \<and>
        animationPaused gm' \<and> \<not> running (timer gm')) \<and>
     (\<not> goalReached gm' \<longrightarrow> effects gm' = effects gm \<and> timer gm' = timer gm)"
proof (cases "renderInfo gm")
  case None
  then have "stepPhysics now dt gm = Inr gm" by (simp add: stepPhysics_def)
  with None show ?thesis by simp
next
  case (Some ri)
  from stepPhysics_shape [OF Some] obtain px py vx vy where
    sp: "stepPhysics now dt gm =
           Inr (goalCheck now (ri_cellSize ri)
                  (gm\<lparr>ball_pos_x := px, ball_pos_y := py, ball_vel_x := vx, ball_vel_y := vy\<rparr>))"
    by blast
  let ?g = "gm\<lparr>ball_pos_x := px, ball_pos_y := py, ball_vel_x := vx, ball_vel_y := vy\<rparr>"
  let ?g' = "goalCheck now (ri_cellSize ri) ?g"
  have g_fields: "goalReached ?g = goalReached gm" "effects ?g = effects gm" "timer ?g = timer gm"
    "animationPaused ?g = animationPaused gm" "animationId ?g = animationId gm"
    "goalCell ?g = goalCell gm" by simp_all
  have a: "goalReached gm \<longrightarrow>
        goalReached ?g' \<and> effects ?g' = effects gm \<and> timer ?g' = timer gm \<and>
        animationPaused ?g' = animationPaused gm \<and> animationId ?g' = animationId gm"
    using goalCheck_reached [of ?g now "ri_cellSize ri"] by simp
  have pos: "ball_pos_x ?g' = ball_pos_x ?g" "ball_pos_y ?g' = ball_pos_y ?g"
    using goalCheck_keeps [of now "ri_cellSize ri" ?g] by simp_all
  have b: "\<not> goalReached gm \<longrightarrow>
        (goalReached ?g' \<longleftrightarrow>
           (\<exists>ri gc. renderInfo gm = Some ri \<and> goalCell gm = Some gc \<and>
              \<lfloor>ball_pos_y ?g' / ri_cellSize ri\<rfloor> = cell_r gc \<and>
              \<lfloor>ball_pos_x ?g' / ri_cellSize ri\<rfloor> = cell_c gc))"
    unfolding pos using goalCheck_fires [of ?g now "ri_cellSize ri"] Some by simp
  have c: "\<not> goalReached gm \<and> goalReached ?g' \<longrightarrow>
        effects ?g' =
          effects gm @ (if animationId gm \<noteq> None then [CancelAnimationFrame] else []) @
            [SaveCompletionTime (getElapsedMs now (stopTimer now (timer gm))), WinModalShown] \<and>
        animationPaused ?g' \<and> \<not> running (timer ?g')"
    using goalCheck_effects [of ?g now "ri_cellSize ri"] by simp
  have d: "\<not> goalReached ?g' \<longrightarrow> effects ?g' = effects gm \<and> timer ?g' = timer gm"
    using goalCheck_quiet [of now "ri_cellSize ri" ?g] by auto
  from sp a b c d show ?thesis by blast
qed

lemma stepFrames_goal:
  "goalReached gm \<Longrightarrow>
   \<exists>gm'. stepFrames fs gm = Inr gm' \<and> goalReached gm' \<and> effects gm' = effects gm \<and>
         timer gm' = timer gm"
proof (induction fs arbitrary: gm)
  case Nil
  then show ?case by simp
next
  case (Cons f fs)
  obtain now dt where f: "f = (now, dt)" by (cases f)
  from stepPhysics_goal [of now dt gm] Cons.prems obtain g1 where
    g1: "stepPhysics now dt gm = Inr g1" "goalReached g1" "effects g1 = effects gm"
      "timer g1 = timer gm"
    by blast
  from Cons.IH [OF g1(2)] obtain g2 where
    "stepFrames fs g1 = Inr g2" "goalReached g2" "effects g2 = effects g1" "timer g2 = timer g1"
    by blast
  with g1 f show ?case by simp
qed

lemma stepPhysics_swept_goal:
  "(goalReached gm \<longrightarrow>
      goalReached (stepPhysics_swept dt gm) \<and> effects (stepPhysics_swept dt gm) = effects gm) \<and>
   (\<not> goalReached gm \<longrightarrow>
      (goalReached (stepPhysics_swept dt gm) \<longleftrightarrow>
         (\<exists>ri gc. renderInfo gm = Some ri \<and> goalCell gm = Some gc \<and>
            \<lfloor>ball_pos_y (stepPhysics_swept dt gm) / ri_cellSize ri\<rfloor> = cell_r gc \<and>
            \<lfloor>ball_pos_x (stepPhysics_swept dt gm) / ri_cellSize ri\<rfloor> = cell_c gc)))"
proof (cases "renderInfo gm")
  case None
  then have "stepPhysics_swept dt gm = gm" by (simp add: stepPhysics_swept_def)
  with None show ?thesis by simp
next
  case (Some ri)
  from stepPhysics_swept_shape [OF Some] obtain px py vx vy where
    sp: "stepPhysics_swept dt gm =
           goalCheck_swept (ri_cellSize ri)
             (gm\<lparr>ball_pos_x := px, ball_pos_y := py, ball_vel_x := vx, ball_vel_y := vy\<rparr>)"
    by blast
  let ?g = "gm\<lparr>ball_pos_x := px, ball_pos_y := py, ball_vel_x := vx, ball_vel_y := vy\<rparr>"
  let ?g' = "goalCheck_swept (ri_cellSize ri) ?g"
  have a: "goalReached gm \<longrightarrow> goalReached ?g' \<and> effects ?g' = effects gm"
    using goalCheck_swept_reached [of ?g "ri_cellSize ri"] by simp
  have pos: "ball_pos_x ?g' = ball_pos_x ?g" "ball_pos_y ?g' = ball_pos_y ?g"
    using goalCheck_swept_keeps [of "ri_cellSize ri" ?g] by simp_all
  have b: "\<not> goalReached gm \<longrightarrow>
        (goalReached ?g' \<longleftrightarrow>
           (\<exists>ri gc. renderInfo gm = Some ri \<and> goalCell gm = Some gc \<and>
              \<lfloor>ball_pos_y ?g' / ri_cellSize ri\<rfloor> = cell_r gc \<and>
              \<lfloor>ball_pos_x ?g' / ri_cellSize ri\<rfloor> = cell_c gc))"
    unfolding pos using goalCheck_swept_fires [of ?g "ri_cellSize ri"] Some by simp
  from a b show ?thesis unfolding sp by blast
qed

lemma subStepCount_ge1: "1 \<le> subStepCount velx vely dt cellSize"
  by (simp add: subStepCount_def Let_def)

lemma subStepCount_swept_ge1: "1 \<le> subStepCount_swept velx vely dt cellSize"
  by (simp add: subStepCount_swept_def Let_def)

lemma subStepLoop_total:
  assumes "renderInfo gm = Some ri"
  shows "\<exists>gm2. subStepLoop n stepDt radius cellSize gm = Inr gm2"
  using subStepLoop_state [OF assms] by blast

lemma sqrt_62500: "sqrt 62500 = 250"
  by (rule real_sqrt_unique) simp_all

lemma sqrt_10000: "sqrt 10000 = 100"
  by (rule real_sqrt_unique) simp_all

lemma demo_resolve_rest:
  "resolveCircleCollisions (demoGoalGame\<lparr>goalReached := b\<rparr>) 50 50 3 100 =
     Inr ((50, 50), demoGoalGame\<lparr>goalReached := b\<rparr>)"
  by (simp add: resolveCircleCollisions_def demoGoalGame_def demoGame_def game0_def eval_nat_numeral
      resolvePass_def resolveTile_def tileContact_def isWall_def demoLevel_def demoInfo_def
      clamp_def Let_def upto.simps)

lemma demo_subStep:
  "subStep stepDt 3 100 (demoGoalGame\<lparr>goalReached := b\<rparr>) = Inr (demoGoalGame\<lparr>goalReached := b\<rparr>)"
proof -
  have "ball_pos_x (demoGoalGame\<lparr>goalReached := b\<rparr>) = 50" "ball_pos_y (demoGoalGame\<lparr>goalReached := b\<rparr>) = 50"
    "ball_vel_x (demoGoalGame\<lparr>goalReached := b\<rparr>) = 0" "ball_vel_y (demoGoalGame\<lparr>goalReached := b\<rparr>) = 0"
    by (simp_all add: demoGoalGame_def demoGame_def game0_def)
  then show ?thesis
    unfolding subStep_def Let_def by (simp add: demo_resolve_rest)
qed

lemma demo_damp:
  "dampVelocity 0 0 dt (demoGoalGame\<lparr>goalReached := b\<rparr>) = demoGoalGame\<lparr>goalReached := b\<rparr>"
  by (simp add: dampVelocity_def demoGoalGame_def demoGame_def game0_def Let_def)

lemma demo_fields:
  "renderInfo (demoGoalGame\<lparr>goalReached := b\<rparr>) = Some demoInfo"
  "computeAcceleration (demoGoalGame\<lparr>goalReached := b\<rparr>) = (0, 0)"
  "computeAcceleration_keys (demoGoalGame\<lparr>goalReached := b\<rparr>) = (0, 0)"
  "ball_vel_x (demoGoalGame\<lparr>goalReached := b\<rparr>) = 0"
  "ball_vel_y (demoGoalGame\<lparr>goalReached := b\<rparr>) = 0"
  "ball_pos_x (demoGoalGame\<lparr>goalReached := b\<rparr>) = 50"
  "ball_pos_y (demoGoalGame\<lparr>goalReached := b\<rparr>) = 50"
  "ball_radius (demoGoalGame\<lparr>goalReached := b\<rparr>) = 3"
  "goalCell (demoGoalGame\<lparr>goalReached := b\<rparr>) = Some \<lparr>cell_r = 0, cell_c = 0\<rparr>"
  "effects (demoGoalGame\<lparr>goalReached := b\<rparr>) = []"
  "animationId (demoGoalGame\<lparr>goalReached := b\<rparr>) = None"
  "timer (demoGoalGame\<lparr>goalReached := b\<rparr>) = timerState0"
  "goalReached (demoGoalGame\<lparr>goalReached := b\<rparr>) = b"
  by (simp_all add: demoGoalGame_def demoGame_def game0_def computeAcceleration_def
      computeAcceleration_keys_def Let_def)

lemma demo_count: "subStepCount 0 0 dt 100 = 1" "subStepCount_swept 0 0 dt 100 = 1"
  by (simp_all add: subStepCount_def subStepCount_swept_def Let_def)

lemma demo_step:
  "stepPhysics now dt (demoGoalGame\<lparr>goalReached := b\<rparr>) =
     Inr (goalCheck now 100 (demoGoalGame\<lparr>goalReached := b\<rparr>))"
  unfolding stepPhysics_def
  by (simp add: demo_fields demo_damp demo_count demo_subStep demoInfo_def Let_def)

text \<open>
  C7 (as amended). \<open>stepPhysics\<close> divides the position update of a frame into exactly
  \<open>N = max(1, ceil(speed \<cdot> dt / max(1, 0.45 \<cdot> cellSize)))\<close> sub-steps of duration \<open>dt/N\<close>
  each, which add up to \<open>dt\<close>, and all of them are run. In the circle-resolver variants
  \<open>speed\<close> is the magnitude of the velocity after damping, and for a tile size of at least
  \<open>20/9\<close> the count is \<open>max(1, ceil(speed \<cdot> dt / (0.45 \<cdot> cellSize)))\<close>; in the axis-swept
  variant \<open>speed\<close> is the larger of the absolute values of the two velocity components.
\<close>

theorem subStep_count:
  "subStepCount velx vely dt cellSize =
     max 1 \<lceil>sqrt (velx * velx + vely * vely) * dt / max 1 (0.45 * cellSize)\<rceil> \<and>
   subStepCount_swept velx vely dt cellSize =
     max 1 \<lceil>max \<bar>velx\<bar> \<bar>vely\<bar> * dt / max 1 (0.45 * cellSize)\<rceil> \<and>
   (20 / 9 \<le> cellSize \<longrightarrow>
      subStepCount velx vely dt cellSize = spec_subStepCount velx vely dt cellSize) \<and>
   (renderInfo gm = Some ri \<longrightarrow>
      (let (ax, ay) = computeAcceleration gm;
           gm1 = dampVelocity ax ay dt gm;
           N = subStepCount (ball_vel_x gm1) (ball_vel_y gm1) dt (ri_cellSize ri)
       in 1 \<le> N \<and> real_of_int N * (dt / real_of_int N) = dt \<and>
          (\<exists>gm2. subStepLoop (nat N) (dt / real_of_int N) (ball_radius gm) (ri_cellSize ri) gm1
                    = Inr gm2 \<and>
                 stepPhysics now dt gm = Inr (goalCheck now (ri_cellSize ri) gm2))) \<and>
      (let (ax, ay) = computeAcceleration_keys gm;
           gm1 = dampVelocity ax ay dt gm;
           N = subStepCount_swept (ball_vel_x gm1) (ball_vel_y gm1) dt (ri_cellSize ri)
       in 1 \<le> N \<and> real_of_int N * (dt / real_of_int N) = dt \<and>
          stepPhysics_swept dt gm =
            goalCheck_swept (ri_cellSize ri)
              (((subStep_swept ri (dt / real_of_int N) (ball_radius gm) (ri_cellSize ri)) ^^ nat N)
                 gm1)))"
proof (intro conjI impI)
  show "subStepCount velx vely dt cellSize =
     max 1 \<lceil>sqrt (velx * velx + vely * vely) * dt / max 1 (0.45 * cellSize)\<rceil>"
    by (simp add: subStepCount_def Let_def mult.commute)
  show "subStepCount_swept velx vely dt cellSize =
     max 1 \<lceil>max \<bar>velx\<bar> \<bar>vely\<bar> * dt / max 1 (0.45 * cellSize)\<rceil>"
    by (simp add: subStepCount_swept_def Let_def mult.commute)
next
  assume "20 / 9 \<le> cellSize"
  then have "max 1 (cellSize * 0.45) = 0.45 * cellSize" by (simp add: max_def)
  then show "subStepCount velx vely dt cellSize = spec_subStepCount velx vely dt cellSize"
    unfolding subStepCount_def spec_subStepCount_def Let_def by (simp only:)
next
  assume ri: "renderInfo gm = Some ri"
  obtain ax ay where a: "computeAcceleration gm = (ax, ay)" by (cases "computeAcceleration gm")
  define gm1 where "gm1 = dampVelocity ax ay dt gm"
  define N where "N = subStepCount (ball_vel_x gm1) (ball_vel_y gm1) dt (ri_cellSize ri)"
  have n1: "1 \<le> N" unfolding N_def by (rule subStepCount_ge1)
  then have dtN: "real_of_int N * (dt / real_of_int N) = dt" by simp
  have r1: "renderInfo gm1 = Some ri" "ball_radius gm1 = ball_radius gm"
    using ri by (simp_all add: gm1_def dampVelocity_def Let_def)
  from subStepLoop_total [OF r1(1)] obtain gm2 where
    l: "subStepLoop (nat N) (dt / real_of_int N) (ball_radius gm) (ri_cellSize ri) gm1 = Inr gm2"
    by blast
  then have "stepPhysics now dt gm = Inr (goalCheck now (ri_cellSize ri) gm2)"
    unfolding stepPhysics_def using ri a r1(2) by (simp add: Let_def gm1_def [symmetric] N_def [symmetric])
  with l n1 dtN show "let (ax, ay) = computeAcceleration gm;
           gm1 = dampVelocity ax ay dt gm;
           N = subStepCount (ball_vel_x gm1) (ball_vel_y gm1) dt (ri_cellSize ri)
       in 1 \<le> N \<and> real_of_int N * (dt / real_of_int N) = dt \<and>
          (\<exists>gm2. subStepLoop (nat N) (dt / real_of_int N) (ball_radius gm) (ri_cellSize ri) gm1
                    = Inr gm2 \<and>
                 stepPhysics now dt gm = Inr (goalCheck now (ri_cellSize ri) gm2))"
    using a by (simp add: Let_def gm1_def [symmetric] N_def [symmetric])
next
  assume ri: "renderInfo gm = Some ri"
  obtain ax ay where a: "computeAcceleration_keys gm = (ax, ay)"
    by (cases "computeAcceleration_keys gm")
  define gm1 where "gm1 = dampVelocity ax ay dt gm"
  define N where "N = subStepCount_swept (ball_vel_x gm1) (ball_vel_y gm1) dt (ri_cellSize ri)"
  have n1: "1 \<le> N" unfolding N_def by (rule subStepCount_swept_ge1)
  then have dtN: "real_of_int N * (dt / real_of_int N) = dt" by simp
  have r1: "ball_radius gm1 = ball_radius gm"
    by (simp add: gm1_def dampVelocity_def Let_def)
  have "stepPhysics_swept dt gm =
            goalCheck_swept (ri_cellSize ri)
              (((subStep_swept ri (dt / real_of_int N) (ball_radius gm) (ri_cellSize ri)) ^^ nat N)
                 gm1)"
    unfolding stepPhysics_swept_def using ri a r1 by (simp add: Let_def gm1_def [symmetric] N_def [symmetric])
  with n1 dtN show "let (ax, ay) = computeAcceleration_keys gm;
           gm1 = dampVelocity ax ay dt gm;
           N = subStepCount_swept (ball_vel_x gm1) (ball_vel_y gm1) dt (ri_cellSize ri)
       in 1 \<le> N \<and> real_of_int N * (dt / real_of_int N) = dt \<and>
          stepPhysics_swept dt gm =
            goalCheck_swept (ri_cellSize ri)
              (((subStep_swept ri (dt / real_of_int N) (ball_radius gm) (ri_cellSize ri)) ^^ nat N)
                 gm1)"
    using a by (simp add: Let_def gm1_def [symmetric] N_def [symmetric])
qed

theorem subStep_count_witness:
  "subStepCount 150 200 (1 / 50) 10 = 2 \<and>
   subStepCount_swept 150 200 (1 / 50) 10 = 1 \<and>
   20 / 9 \<le> (10::real) \<and>
   subStepCount 150 200 (1 / 50) 10 = spec_subStepCount 150 200 (1 / 50) 10 \<and>
   renderInfo (demoGoalGame\<lparr>goalReached := False\<rparr>) = Some demoInfo \<and>
   (\<exists>gm2. subStepLoop (nat 1) (1 / 50 / real_of_int 1) 3 100 (demoGoalGame\<lparr>goalReached := False\<rparr>)
             = Inr gm2 \<and>
          stepPhysics 0 (1 / 50) (demoGoalGame\<lparr>goalReached := False\<rparr>) = Inr (goalCheck 0 100 gm2)) \<and>
   stepPhysics_swept (1 / 50) (demoGoalGame\<lparr>goalReached := False\<rparr>) =
     goalCheck_swept 100
       (((subStep_swept demoInfo (1 / 50 / real_of_int 1) 3 100) ^^ nat 1)
          (demoGoalGame\<lparr>goalReached := False\<rparr>))"
  using subStep_count [of 150 200 "1 / 50" 10 "demoGoalGame\<lparr>goalReached := False\<rparr>" demoInfo 0]
  by (simp add: demo_fields demo_damp demo_count demoInfo_def sqrt_62500 Let_def)

text \<open>
  The claim as first stated fails in the axis-swept variant at velocity \<open>(150, 200)\<close>,
  \<open>dt = 0.02\<close> and tile size 10 (one sub-step, where the stated formula gives two), and in the
  circle-resolver variants at velocity \<open>(100, 0)\<close>, \<open>dt = 0.03\<close> and tile size 2, where the
  guard \<open>max(1, \<dots>)\<close> on the divisor takes effect (three sub-steps, where the stated formula
  gives four).
\<close>

theorem subStep_count_counterexample:
  "subStepCount_swept 150 200 (1 / 50) 10 = 1 \<and> spec_subStepCount 150 200 (1 / 50) 10 = 2 \<and>
   subStepCount_swept 150 200 (1 / 50) 10 \<noteq> spec_subStepCount 150 200 (1 / 50) 10 \<and>
   subStepCount 100 0 (3 / 100) 2 = 3 \<and> spec_subStepCount 100 0 (3 / 100) 2 = 4 \<and>
   subStepCount 100 0 (3 / 100) 2 \<noteq> spec_subStepCount 100 0 (3 / 100) 2"
  by (simp add: subStepCount_swept_def subStepCount_def spec_subStepCount_def Let_def
      sqrt_62500 sqrt_10000)

text \<open>
  C8. Every call of \<open>stepPhysics\<close> returns, and: if \<open>goalReached\<close> holds before the call it
  holds after it, with the effect trace, the timer and the pause state untouched, whatever
  the position of the ball; if it does not hold before, it holds after the call exactly when
  a goal cell exists and the tile of the ball's centre after the sub-steps,
  \<open>(floor(pos.y / cellSize), floor(pos.x / cellSize))\<close>, is the goal cell, and then the completion
  effects are added once; a call that leaves \<open>goalReached\<close> false adds no effect. Hence after
  any run of frames from a state with \<open>goalReached\<close>, the flag still holds and no effect was
  added. The axis-swept variant has the same transition.
\<close>

theorem goal_transition:
  "(\<exists>gm'. stepPhysics now dt gm = Inr gm' \<and>
     (goalReached gm \<longrightarrow>
        goalReached gm' \<and> effects gm' = effects gm \<and> timer gm' = timer gm \<and>
        animationPaused gm' = animationPaused gm \<and> animationId gm' = animationId gm) \<and>
     (\<not> goalReached gm \<longrightarrow>
        (goalReached gm' \<longleftrightarrow>
           (\<exists>ri gc. renderInfo gm = Some ri \<and> goalCell gm = Some gc \<and>
              \<lfloor>ball_pos_y gm' / ri_cellSize ri\<rfloor> = cell_r gc \<and>
              \<lfloor>ball_pos_x gm' / ri_cellSize ri\<rfloor> = cell_c gc))) \<and>
     (\<not> goalReached gm \<and> goalReached gm' \<longrightarrow>
        effects gm' =
          effects gm @ (if animationId gm \<noteq> None then [CancelAnimationFrame] else []) @
            [SaveCompletionTime (getElapsedMs now (stopTimer now (timer gm))), WinModalShown] \<and>
        animationPaused gm' \<and> \<not> running (timer gm')) \<and>
     (\<not> goalReached gm' \<longrightarrow> effects gm' = effects gm \<and> timer gm' = timer gm)) \<and>
   (goalReached gm \<longrightarrow>
      (\<exists>gm'. stepFrames fs gm = Inr gm' \<and> goalReached gm' \<and> effects gm' = effects gm \<and>
         timer gm' = timer gm)) \<and>
   (goalReached gm \<longrightarrow>
      goalReached (stepPhysics_swept dt gm) \<and> effects (stepPhysics_swept dt gm) = effects gm) \<and>
   (\<not> goalReached gm \<longrightarrow>
      (goalReached (stepPhysics_swept dt gm) \<longleftrightarrow>
         (\<exists>ri gc. renderInfo gm = Some ri \<and> goalCell gm = Some gc \<and>
            \<lfloor>ball_pos_y (stepPhysics_swept dt gm) / ri_cellSize ri\<rfloor> = cell_r gc \<and>
            \<lfloor>ball_pos_x (stepPhysics_swept dt gm) / ri_cellSize ri\<rfloor> = cell_c gc)))"
  using stepPhysics_goal [of now dt gm] stepFrames_goal [of gm fs]
    stepPhysics_swept_goal [of gm dt]
  by (intro conjI) blast+

theorem goal_transition_witness:
  "\<not> goalReached (demoGoalGame\<lparr>goalReached := False\<rparr>) \<and>
   (\<exists>gm'. stepPhysics 0 (1 / 50) (demoGoalGame\<lparr>goalReached := False\<rparr>) = Inr gm' \<and>
      goalReached gm' \<and> effects gm' = [SaveCompletionTime 0, WinModalShown] \<and>
      \<lfloor>ball_pos_y gm' / 100\<rfloor> = 0 \<and> \<lfloor>ball_pos_x gm' / 100\<rfloor> = 0) \<and>
   goalReached (demoGoalGame\<lparr>goalReached := True\<rparr>) \<and>
   (\<exists>gm'. stepPhysics 0 (1 / 50) (demoGoalGame\<lparr>goalReached := True\<rparr>) = Inr gm' \<and>
      goalReached gm' \<and> effects gm' = []) \<and>
   (\<exists>gm'. stepFrames [(0, 1 / 50), (20, 1 / 50)] (demoGoalGame\<lparr>goalReached := True\<rparr>) = Inr gm' \<and>
      goalReached gm' \<and> effects gm' = [])"
proof -
  have gc: "goalCheck 0 100 (demoGoalGame\<lparr>goalReached := False\<rparr>) =
      demoGoalGame\<lparr>goalReached := True, animationPaused := True,
        effects := [SaveCompletionTime 0, WinModalShown]\<rparr>"
    by (simp add: goalCheck_def demo_fields pauseGame_def showWinModal_def stopTimer_def
        getElapsedMs_def timerState0_def Let_def demoGoalGame_def demoGame_def game0_def)
  have pos: "ball_pos_x (goalCheck 0 100 (demoGoalGame\<lparr>goalReached := False\<rparr>)) = 50"
    "ball_pos_y (goalCheck 0 100 (demoGoalGame\<lparr>goalReached := False\<rparr>)) = 50"
    unfolding gc by (simp_all add: demoGoalGame_def demoGame_def game0_def)
  have el: "getElapsedMs 0 (stopTimer 0 timerState0) = 0"
    by (simp add: getElapsedMs_def stopTimer_def timerState0_def)
  show ?thesis
    using goal_transition [of 0 "1 / 50" "demoGoalGame\<lparr>goalReached := False\<rparr>" "[]"]
      goal_transition [of 0 "1 / 50" "demoGoalGame\<lparr>goalReached := True\<rparr>" "[(0, 1 / 50), (20, 1 / 50)]"]
    by (simp add: demo_step demo_fields pos el demoInfo_def del: stepFrames.simps) blast
qed

end
